theory Spec2Isabelle
  imports Main
begin

section \<open>The data model\<close>

text \<open>
  The program keeps its data in a single-file relational store with two tables,
  \<^verbatim>\<open>counters\<close> and \<^verbatim>\<open>counter_counts\<close>.  A row of each table is a record whose
  fields carry the column names of \<^verbatim>\<open>SCHEMA_SQL\<close>.  Python integers are unbounded, so
  every integer column is an \<^typ>\<open>int\<close>.  The storage engine keeps integers in 64 bits and
  turns a larger integer literal into a floating-point number; such a number is kept here
  by its value, which is an integer outside the 64-bit range.  The \<^verbatim>\<open>access_time\<close> column
  holds the reading of the clock (in seconds) at insertion.  Rows are kept in rowid order, the
  order in which a table scan visits them.  Strings are lists of characters with code
  points below 256.

  The error \<open>Unmodelled\<close> is not an error of the program: it marks an input that leaves
  the fragment of SQL or JSON text this development interprets, about which nothing is
  said.
\<close>

datatype error =
    StorageError
  | SampleReadError
  | SampleParseError
  | CredentialsError
  | DeliveryError
  | Unmodelled

section \<open>Decimal text\<close>

text \<open>
  Python's \<^verbatim>\<open>"%d" % n\<close> and \<^verbatim>\<open>str(n)\<close>: the decimal digits, after a minus sign when
  \<open>n\<close> is negative.
\<close>

definition is_digit :: "char \<Rightarrow> bool" where
  "is_digit c = (48 \<le> (of_char c :: nat) \<and> (of_char c :: nat) \<le> 57)"

definition digit_val :: "char \<Rightarrow> nat" where
  "digit_val c = of_char c - 48"

definition digit_char :: "nat \<Rightarrow> char" where
  "digit_char k = char_of (48 + k)"

function digits_of :: "nat \<Rightarrow> string" where
  "digits_of n = (if n < 10 then [digit_char n] else digits_of (n div 10) @ [digit_char (n mod 10)])"
  by pat_completeness auto
termination
  by (relation "measure id") auto

declare digits_of.simps [simp del]

text \<open>The number that a string of digits denotes, continuing from \<open>acc\<close>.\<close>

definition decimal :: "nat \<Rightarrow> string \<Rightarrow> nat" where
  "decimal acc ds = foldl (\<lambda>a c. 10 * a + digit_val c) acc ds"

definition str_of_int :: "int \<Rightarrow> string" where
  "str_of_int i = (if i < 0 then CHR ''-'' # digits_of (nat (- i)) else digits_of (nat i))"

section \<open>Tables, schema and connections\<close>

record counter_row =
  counter_id :: int
  path :: string
  name :: string

record sample_row =
  counter_count_id :: int
  counters_counter_id :: int
  count :: int
  access_time :: nat

text \<open>
  A schema object is a table or an index: \<open>Index n t c u\<close> is the index named \<open>n\<close> on
  column \<open>c\<close> of table \<open>t\<close>, unique when \<open>u\<close> holds.
\<close>

datatype schema_obj =
    Table string
  | Index string string string bool

fun obj_name :: "schema_obj \<Rightarrow> string" where
  "obj_name (Table n) = n"
| "obj_name (Index n t c u) = n"

fun is_table :: "schema_obj \<Rightarrow> bool" where
  "is_table (Table n) = True"
| "is_table (Index n t c u) = False"

record db =
  schema :: "schema_obj list"
  counters :: "counter_row list"
  counter_counts :: "sample_row list"

definition empty_db :: db where
  "empty_db = \<lparr>schema = [], counters = [], counter_counts = []\<rparr>"

definition has_table :: "db \<Rightarrow> string \<Rightarrow> bool" where
  "has_table d n = (Table n \<in> set (schema d))"

definition has_index :: "db \<Rightarrow> string \<Rightarrow> bool" where
  "has_index d n = (\<exists>x \<in> set (schema d). \<not> is_table x \<and> obj_name x = n)"

text \<open>
  A connection holds the store as it is on disk and, once a data-changing statement has
  run, the pending transaction: a working copy that replaces the disk contents at
  \<^verbatim>\<open>commit\<close> and is dropped when the process ends without one.
\<close>

record connection =
  disk :: db
  txn :: "db option"

definition get_connection :: "db \<Rightarrow> connection" where
  "get_connection store = \<lparr>disk = store, txn = None\<rparr>"

definition view :: "connection \<Rightarrow> db" where
  "view conn = (case txn conn of None \<Rightarrow> disk conn | Some w \<Rightarrow> w)"

definition dml :: "(db \<Rightarrow> db) \<Rightarrow> connection \<Rightarrow> connection" where
  "dml f conn = conn\<lparr>txn := Some (f (view conn))\<rparr>"

definition commit :: "connection \<Rightarrow> connection" where
  "commit conn = \<lparr>disk = view conn, txn = None\<rparr>"

subsection \<open>Reading the latest value\<close>

text \<open>
  \<^verbatim>\<open>select max(access_time), count from counter_counts where counters_counter_id = ?\<close>
  is an aggregate query with a bare column: it yields one row, whose \<^verbatim>\<open>count\<close> is taken
  from a row that attains the maximum, and \<^verbatim>\<open>(NULL, NULL)\<close> when no row matches.  Among
  rows with equal maximal timestamps the engine takes the one it meets first: walking the
  index on \<^verbatim>\<open>access_time\<close> downwards when that index exists (the row inserted last), and
  scanning the table upwards otherwise (the row inserted first).
\<close>

fun max_row :: "bool \<Rightarrow> sample_row option \<Rightarrow> sample_row list \<Rightarrow> sample_row option" where
  "max_row later best [] = best"
| "max_row later None (r # rs) = max_row later (Some r) rs"
| "max_row later (Some b) (r # rs) =
     (if access_time b < access_time r \<or> (later \<and> access_time b = access_time r)
      then max_row later (Some r) rs
      else max_row later (Some b) rs)"

definition samples_of :: "db \<Rightarrow> int \<Rightarrow> sample_row list" where
  "samples_of d cid = filter (\<lambda>r. counters_counter_id r = cid) (counter_counts d)"

definition QUERY_COUNTER_SQL :: "db \<Rightarrow> int \<Rightarrow> error + (sample_row option)" where
  "QUERY_COUNTER_SQL d cid =
     (if has_table d ''counter_counts''
      then Inr (max_row (has_index d ''counter_counts_access_time'') None (samples_of d cid))
      else Inl StorageError)"

definition get_counter :: "connection \<Rightarrow> int \<Rightarrow> error + int" where
  "get_counter conn cid =
     (case QUERY_COUNTER_SQL (view conn) cid of
        Inl e \<Rightarrow> Inl e
      | Inr None \<Rightarrow> Inr 0
      | Inr (Some r) \<Rightarrow> Inr (count r))"

subsection \<open>Schema creation\<close>

text \<open>
  The four statements of \<^verbatim>\<open>SCHEMA_SQL\<close>, and the empty statement that
  \<^verbatim>\<open>SCHEMA_SQL.split(";")\<close> leaves after the last semicolon.  Each \<^verbatim>\<open>create\<close> carries
  \<^verbatim>\<open>if not exists\<close>: it does nothing when an object of its kind with its name exists,
  and fails when the name is taken by an object of the other kind.  A new table starts
  empty; a unique index cannot be built over a column that holds duplicates.
\<close>

datatype ddl =
    CreateTable string
  | CreateIndex string string string bool
  | EmptyStmt

definition SCHEMA_SQL :: "ddl list" where
  "SCHEMA_SQL =
    [CreateTable ''counters'',
     CreateIndex ''counters_path'' ''counters'' ''path'' True,
     CreateTable ''counter_counts'',
     CreateIndex ''counter_counts_access_time'' ''counter_counts'' ''access_time'' False,
     EmptyStmt]"

definition new_table :: "string \<Rightarrow> db \<Rightarrow> db" where
  "new_table n d =
     \<lparr>schema = schema d @ [Table n],
      counters = (if n = ''counters'' then [] else counters d),
      counter_counts = (if n = ''counter_counts'' then [] else counter_counts d)\<rparr>"

definition duplicates :: "db \<Rightarrow> string \<Rightarrow> string \<Rightarrow> bool" where
  "duplicates d t c =
     (t = ''counters'' \<and> c = ''path'' \<and> \<not> distinct (map path (counters d)))"

fun exec_ddl :: "ddl \<Rightarrow> db \<Rightarrow> error + db" where
  "exec_ddl (CreateTable n) d =
     (if has_table d n then Inr d
      else if has_index d n then Inl StorageError
      else Inr (new_table n d))"
| "exec_ddl (CreateIndex n t c u) d =
     (if has_index d n then Inr d
      else if has_table d n then Inl StorageError
      else if \<not> has_table d t then Inl StorageError
      else if u \<and> duplicates d t c then Inl StorageError
      else Inr (d\<lparr>schema := schema d @ [Index n t c u]\<rparr>))"
| "exec_ddl EmptyStmt d = Inr d"

text \<open>
  A schema statement runs outside any transaction when none is open, and then takes
  effect on disk at once; inside an open transaction it changes the working copy.
\<close>

definition execute_ddl :: "ddl \<Rightarrow> connection \<Rightarrow> error + connection" where
  "execute_ddl cmd conn =
     (case txn conn of
        None \<Rightarrow> (case exec_ddl cmd (disk conn) of
                   Inl e \<Rightarrow> Inl e
                 | Inr d \<Rightarrow> Inr (conn\<lparr>disk := d\<rparr>))
      | Some w \<Rightarrow> (case exec_ddl cmd w of
                     Inl e \<Rightarrow> Inl e
                   | Inr d \<Rightarrow> Inr (conn\<lparr>txn := Some d\<rparr>)))"

text \<open>
  \<open>create_schema\<close> runs the statements in order and stops at the first that fails.  It
  returns the connection as the statements that ran have left it, with the error if one
  was raised.
\<close>

fun execute_all :: "ddl list \<Rightarrow> connection \<Rightarrow> error option \<times> connection" where
  "execute_all [] conn = (None, conn)"
| "execute_all (cmd # cmds) conn =
     (case execute_ddl cmd conn of
        Inl e \<Rightarrow> (Some e, conn)
      | Inr conn' \<Rightarrow> execute_all cmds conn')"

definition create_schema :: "connection \<Rightarrow> error option \<times> connection" where
  "create_schema conn = execute_all SCHEMA_SQL conn"

text \<open>The schema that the four statements build in an empty store.\<close>

definition full_schema :: "schema_obj list" where
  "full_schema =
     [Table ''counters'', Index ''counters_path'' ''counters'' ''path'' True,
      Table ''counter_counts'',
      Index ''counter_counts_access_time'' ''counter_counts'' ''access_time'' False]"

text \<open>\<open>create_schema_times n\<close> calls \<open>create_schema\<close> \<open>n\<close> times in a row.\<close>

fun create_schema_times :: "nat \<Rightarrow> connection \<Rightarrow> error option \<times> connection" where
  "create_schema_times 0 conn = (None, conn)"
| "create_schema_times (Suc n) conn =
     (case create_schema conn of
        (Some e, conn') \<Rightarrow> (Some e, conn')
      | (None, conn') \<Rightarrow> create_schema_times n conn')"

subsection \<open>Listing counters and recording samples\<close>

definition get_counters :: "connection \<Rightarrow> error + counter_row list" where
  "get_counters conn =
     (if has_table (view conn) ''counters'' then Inr (counters (view conn))
      else Inl StorageError)"

text \<open>
  A row inserted without an explicit key gets the key one above the largest in the
  table, and 1 in an empty table.
\<close>

definition next_rowid :: "int list \<Rightarrow> int" where
  "next_rowid ids = (case ids of [] \<Rightarrow> 1 | x # xs \<Rightarrow> fold max xs x + 1)"

text \<open>
  \<^verbatim>\<open>UPDATE_COUNTER_SQL % (counter_id, count)\<close> writes both integers as decimal literals
  into the statement text.  The engine reads a literal from \<open>- 2 ^ 63\<close> up to \<open>2 ^ 63 - 1\<close>
  as that integer.  A literal from \<open>2 ^ 63\<close> up to 19 digits becomes the nearest
  double-precision number, a multiple of 2048 in this range, the even one of two equally
  near.  What the engine makes of other literals is not interpreted.
\<close>

definition int64 :: "int \<Rightarrow> bool" where
  "int64 n = (- 9223372036854775808 \<le> n \<and> n < 9223372036854775808)"

definition nearest_double :: "int \<Rightarrow> int" where
  "nearest_double n =
     (let q = n div 2048; r = n mod 2048
      in 2048 * (if r < 1024 then q else if 1024 < r then q + 1
                 else if even q then q else q + 1))"

definition stored_count :: "int \<Rightarrow> int option" where
  "stored_count n =
     (if int64 n then Some n
      else if 9223372036854775808 \<le> n \<and> n < 10000000000000000000
      then Some (nearest_double n)
      else None)"

definition insert_sample :: "nat \<Rightarrow> int \<Rightarrow> int \<Rightarrow> db \<Rightarrow> db" where
  "insert_sample now cid v d =
     d\<lparr>counter_counts := counter_counts d @
        [\<lparr>counter_count_id = next_rowid (map counter_count_id (counter_counts d)),
          counters_counter_id = cid, count = v, access_time = now\<rparr>]\<rparr>"

definition UPDATE_COUNTER_SQL :: "nat \<Rightarrow> int \<Rightarrow> int \<Rightarrow> db \<Rightarrow> error + db" where
  "UPDATE_COUNTER_SQL now cid n d =
     (if \<not> int64 cid then Inl Unmodelled
      else
        (case stored_count n of
           None \<Rightarrow> Inl Unmodelled
         | Some v \<Rightarrow> Inr (insert_sample now cid v d)))"

definition update_counter :: "connection \<Rightarrow> nat \<Rightarrow> int \<Rightarrow> int \<Rightarrow> error + connection" where
  "update_counter conn now cid n =
     (if has_table (view conn) ''counter_counts''
      then
        (case UPDATE_COUNTER_SQL now cid n (view conn) of
           Inl e \<Rightarrow> Inl e
         | Inr d \<Rightarrow> Inr (dml (\<lambda>w. d) conn))
      else Inl StorageError)"

subsection \<open>Registering a counter\<close>

text \<open>
  \<open>ADD_COUNTER_SQL\<close> is the statement text that \<^verbatim>\<open>ADD_COUNTER_SQL % (path, name)\<close> builds:
  the two arguments are pasted between single quotes into the template.
\<close>

definition squote :: char where
  "squote = CHR 0x27"

definition newline :: char where
  "newline = CHR 0x0A"

definition ADD_COUNTER_SQL :: "string \<Rightarrow> string \<Rightarrow> string" where
  "ADD_COUNTER_SQL p n =
     [newline] @ ''insert or ignore into counters (path, name)'' @ [newline] @
     ''values ('' @ [squote] @ p @ [squote] @ '', '' @ [squote] @ n @ [squote] @ '');'' @
     [newline]"

text \<open>
  The storage engine reads the statement as a sequence of tokens.  The tokens interpreted
  here are string literals (between single quotes, a doubled quote standing for one quote),
  words (identifiers and keywords, compared without regard to case), unsigned integers,
  parentheses, comma, semicolon and the concatenation operator; white space and comments
  separate tokens.  A string literal that is never closed is an error.  Any other
  character is outside the fragment.
\<close>

datatype token = TString string | TWord string | TInt int | TSym string

definition sql_space :: "char \<Rightarrow> bool" where
  "sql_space c = (c \<in> set [CHR 0x20, CHR 0x09, CHR 0x0A, CHR 0x0C, CHR 0x0D])"

definition is_alpha :: "char \<Rightarrow> bool" where
  "is_alpha c =
     (let n = (of_char c :: nat)
      in (65 \<le> n \<and> n \<le> 90) \<or> (97 \<le> n \<and> n \<le> 122) \<or> n = 95 \<or> 128 \<le> n)"

definition id_char :: "char \<Rightarrow> bool" where
  "id_char c = (is_alpha c \<or> is_digit c \<or> c = CHR ''$'')"

definition lower :: "char \<Rightarrow> char" where
  "lower c =
     (if 65 \<le> (of_char c :: nat) \<and> (of_char c :: nat) \<le> 90 then char_of (of_char c + 32 :: nat)
      else c)"

definition consS :: "char \<Rightarrow> (string \<times> string) option \<Rightarrow> (string \<times> string) option" where
  "consS c r = (case r of None \<Rightarrow> None | Some (v, rest) \<Rightarrow> Some (c # v, rest))"

text \<open>
  \<open>sql_string s\<close> reads a string literal from just after its opening quote: the value it
  denotes and the text after its closing quote, or \<open>None\<close> when the literal is never
  closed.
\<close>

fun sql_string :: "string \<Rightarrow> (string \<times> string) option" where
  "sql_string [] = None"
| "sql_string [c] = (if c = squote then Some ([], []) else None)"
| "sql_string (c # d # cs) =
     (if c = squote then (if d = squote then consS squote (sql_string cs) else Some ([], d # cs))
      else consS c (sql_string (d # cs)))"

text \<open>
  The content of the string literal that denotes \<open>v\<close>: \<open>v\<close> with every quote doubled.
\<close>

definition sql_quote :: "string \<Rightarrow> string" where
  "sql_quote v = concat (map (\<lambda>c. if c = squote then [squote, squote] else [c]) v)"

fun block_comment :: "string \<Rightarrow> string" where
  "block_comment [] = []"
| "block_comment [c] = []"
| "block_comment (c # d # cs) =
     (if c = CHR ''*'' \<and> d = CHR ''/'' then cs else block_comment (d # cs))"

definition consT :: "token \<Rightarrow> error + token list \<Rightarrow> error + token list" where
  "consT t r = (case r of Inl e \<Rightarrow> Inl e | Inr ts \<Rightarrow> Inr (t # ts))"

definition int_of_digits :: "string \<Rightarrow> int" where
  "int_of_digits ds = fold (\<lambda>c acc. 10 * acc + int (digit_val c)) ds 0"

lemma sql_string_shorter: "sql_string s = Some (v, rest) \<Longrightarrow> length rest \<le> length s"
  by (induction s arbitrary: v rest rule: sql_string.induct)
     (auto simp: consS_def split: if_splits option.splits)

lemma block_comment_shorter: "length (block_comment s) \<le> length s"
  by (induction s rule: block_comment.induct) auto

function tokenize :: "string \<Rightarrow> error + token list" where
  "tokenize [] = Inr []"
| "tokenize (c # cs) =
     (if sql_space c then tokenize cs
      else if c = squote then
        (case sql_string cs of
           None \<Rightarrow> Inl StorageError
         | Some (v, rest) \<Rightarrow> consT (TString v) (tokenize rest))
      else if c = CHR ''-'' then
        (case cs of
           [] \<Rightarrow> Inl Unmodelled
         | d # ds \<Rightarrow> if d = CHR ''-'' then tokenize (dropWhile (\<lambda>x. x \<noteq> newline) ds)
                     else Inl Unmodelled)
      else if c = CHR ''/'' then
        (case cs of
           [] \<Rightarrow> Inl Unmodelled
         | d # ds \<Rightarrow> if d = CHR ''*'' then tokenize (block_comment ds) else Inl Unmodelled)
      else if c = CHR ''|'' then
        (case cs of
           [] \<Rightarrow> Inl Unmodelled
         | d # ds \<Rightarrow> if d = CHR ''|'' then consT (TSym ''||'') (tokenize ds) else Inl Unmodelled)
      else if c \<in> set ''(),;'' then consT (TSym [c]) (tokenize cs)
      else if is_digit c then
        (if (case dropWhile is_digit cs of [] \<Rightarrow> False | r # rs \<Rightarrow> id_char r \<or> r = CHR ''.'')
         then Inl Unmodelled
         else consT (TInt (int_of_digits (c # takeWhile is_digit cs)))
                (tokenize (dropWhile is_digit cs)))
      else if is_alpha c then
        consT (TWord (map lower (c # takeWhile id_char cs))) (tokenize (dropWhile id_char cs))
      else Inl Unmodelled)"
  by pat_completeness auto
termination
  by (relation "measure length")
     (auto simp: less_Suc_eq_le le_SucI length_dropWhile_le block_comment_shorter
           dest: sql_string_shorter)

declare tokenize.simps [simp del]

text \<open>The keywords of the storage engine's SQL dialect.\<close>

definition sql_keywords :: "string list" where
  "sql_keywords =
    [''abort'', ''action'', ''add'', ''after'', ''all'', ''alter'', ''always'',
     ''analyze'', ''and'', ''as'', ''asc'', ''attach'', ''autoincrement'', ''before'',
     ''begin'', ''between'', ''by'', ''cascade'', ''case'', ''cast'', ''check'',
     ''collate'', ''column'', ''commit'', ''conflict'', ''constraint'', ''create'',
     ''cross'', ''current'', ''current_date'', ''current_time'', ''current_timestamp'',
     ''database'', ''default'', ''deferrable'', ''deferred'', ''delete'', ''desc'',
     ''detach'', ''distinct'', ''do'', ''drop'', ''each'', ''else'', ''end'', ''escape'',
     ''except'', ''exclude'', ''exclusive'', ''exists'', ''explain'', ''fail'', ''filter'',
     ''first'', ''following'', ''for'', ''foreign'', ''from'', ''full'', ''generated'',
     ''glob'', ''group'', ''groups'', ''having'', ''if'', ''ignore'', ''immediate'',
     ''in'', ''index'', ''indexed'', ''initially'', ''inner'', ''insert'', ''instead'',
     ''intersect'', ''into'', ''is'', ''isnull'', ''join'', ''key'', ''last'', ''left'',
     ''like'', ''limit'', ''match'', ''materialized'', ''natural'', ''no'', ''not'',
     ''nothing'', ''notnull'', ''null'', ''nulls'', ''of'', ''offset'', ''on'', ''or'',
     ''order'', ''others'', ''outer'', ''over'', ''partition'', ''plan'', ''pragma'',
     ''preceding'', ''primary'', ''query'', ''raise'', ''range'', ''recursive'',
     ''references'', ''regexp'', ''reindex'', ''release'', ''rename'', ''replace'',
     ''restrict'', ''returning'', ''right'', ''rollback'', ''row'', ''rows'',
     ''savepoint'', ''select'', ''set'', ''table'', ''temp'', ''temporary'', ''then'',
     ''ties'', ''to'', ''transaction'', ''trigger'', ''unbounded'', ''union'', ''unique'',
     ''update'', ''using'', ''vacuum'', ''values'', ''view'', ''virtual'', ''when'',
     ''where'', ''window'', ''with'', ''within'', ''without'']"

text \<open>
  After a complete expression or row, a token that cannot continue the statement is a
  syntax error.  A keyword may start a clause or an operator that is not interpreted here.
\<close>

fun junk :: "token \<Rightarrow> error" where
  "junk (TWord w) = (if w \<in> set sql_keywords then Unmodelled else StorageError)"
| "junk t = StorageError"

definition expect :: "string \<Rightarrow> token list \<Rightarrow> error + token list" where
  "expect s ts =
     (case ts of
        [] \<Rightarrow> Inl StorageError
      | t # r \<Rightarrow> if t = TSym s then Inr r else Inl (junk t))"

text \<open>
  Values are text or integers.  \<open>replace_str x y z\<close> is the SQL function
  \<^verbatim>\<open>replace(x, y, z)\<close>: every occurrence of \<open>y\<close> in \<open>x\<close>, found left to right, becomes
  \<open>z\<close>; an empty \<open>y\<close> leaves \<open>x\<close> as it is.
\<close>

datatype sqlval = VText string | VInt int

fun to_text :: "sqlval \<Rightarrow> string" where
  "to_text (VText s) = s"
| "to_text (VInt i) = str_of_int i"

function replace_str :: "string \<Rightarrow> string \<Rightarrow> string \<Rightarrow> string" where
  "replace_str [] y z = []"
| "replace_str (c # cs) y z =
     (if y \<noteq> [] \<and> take (length y) (c # cs) = y
      then z @ replace_str (drop (length y) (c # cs)) y z
      else c # replace_str cs y z)"
  by pat_completeness auto
termination
  by (relation "measure (\<lambda>(x, y, z). length x)") auto


fun code_point :: "sqlval \<Rightarrow> char option" where
  "code_point (VInt i) = (if 1 \<le> i \<and> i \<le> 255 then Some (char_of (nat i)) else None)"
| "code_point (VText s) = None"

fun those_chars :: "sqlval list \<Rightarrow> string option" where
  "those_chars [] = Some []"
| "those_chars (v # vs) =
     (case code_point v of
        None \<Rightarrow> None
      | Some c \<Rightarrow> map_option ((#) c) (those_chars vs))"

text \<open>
  Expressions: a string literal, an integer literal, a call of \<^verbatim>\<open>replace\<close> or
  \<^verbatim>\<open>char\<close>, and concatenations of these.  The first argument of each function bounds the
  depth of the recursion; the length of the token list is always enough.
\<close>

definition call :: "string \<Rightarrow> sqlval list \<Rightarrow> error + sqlval" where
  "call f vs =
     (if f = ''replace'' then
        (case vs of
           [x, y, z] \<Rightarrow> Inr (VText (replace_str (to_text x) (to_text y) (to_text z)))
         | _ \<Rightarrow> Inl StorageError)
      else if f = ''char'' then
        (case those_chars vs of None \<Rightarrow> Inl Unmodelled | Some s \<Rightarrow> Inr (VText s))
      else Inl Unmodelled)"

fun expr :: "nat \<Rightarrow> token list \<Rightarrow> error + sqlval \<times> token list"
  and primary :: "nat \<Rightarrow> token list \<Rightarrow> error + sqlval \<times> token list"
  and args :: "nat \<Rightarrow> token list \<Rightarrow> error + sqlval list \<times> token list"
where
  "expr 0 ts = Inl Unmodelled"
| "expr (Suc n) ts =
     (case primary n ts of
        Inl e \<Rightarrow> Inl e
      | Inr (v, rest) \<Rightarrow>
          (case rest of
             [] \<Rightarrow> Inr (v, rest)
           | t # r \<Rightarrow>
               if t = TSym ''||'' then
                 (case expr n r of
                    Inl e \<Rightarrow> Inl e
                  | Inr (w, rest') \<Rightarrow> Inr (VText (to_text v @ to_text w), rest'))
               else Inr (v, rest)))"
| "primary 0 ts = Inl Unmodelled"
| "primary (Suc n) ts =
     (case ts of
        [] \<Rightarrow> Inl StorageError
      | TString s # r \<Rightarrow> Inr (VText s, r)
      | TInt k # r \<Rightarrow> if k < 9223372036854775808 then Inr (VInt k, r) else Inl Unmodelled
      | TWord f # r \<Rightarrow>
          (case r of
             [] \<Rightarrow> Inl Unmodelled
           | t # r' \<Rightarrow>
               if t = TSym ''('' then
                 (case args n r' of
                    Inl e \<Rightarrow> Inl e
                  | Inr (vs, rest) \<Rightarrow>
                      (case call f vs of Inl e \<Rightarrow> Inl e | Inr v \<Rightarrow> Inr (v, rest)))
               else Inl Unmodelled)
      | TSym s # r \<Rightarrow> if s = ''('' then Inl Unmodelled else Inl StorageError)"
| "args 0 ts = Inl Unmodelled"
| "args (Suc n) ts =
     (case ts of
        [] \<Rightarrow> Inl StorageError
      | t # r \<Rightarrow>
          if t = TSym '')'' then Inr ([], r)
          else
            (case expr n ts of
               Inl e \<Rightarrow> Inl e
             | Inr (v, rest) \<Rightarrow>
                 (case rest of
                    [] \<Rightarrow> Inl StorageError
                  | t' # r' \<Rightarrow>
                      if t' = TSym '')'' then Inr ([v], r')
                      else if t' = TSym '','' then
                        (case r' of
                           [] \<Rightarrow> Inl StorageError
                         | u # r'' \<Rightarrow>
                             if u = TSym '')'' then Inl StorageError
                             else
                               (case args n r' of
                                  Inl e \<Rightarrow> Inl e
                                | Inr (vs, rest') \<Rightarrow> Inr (v # vs, rest')))
                      else Inl (junk t'))))"

text \<open>
  A row of the \<^verbatim>\<open>values\<close> clause, read from just after its opening parenthesis: two
  expressions, for \<^verbatim>\<open>path\<close> and \<^verbatim>\<open>name\<close>.  Both columns hold text, so an integer is
  stored as its decimal text.  Any other number of values is an error.
\<close>

definition row :: "token list \<Rightarrow> error + (string \<times> string) \<times> token list" where
  "row ts =
     (case expr (length ts) ts of
        Inl e \<Rightarrow> Inl e
      | Inr (p, r1) \<Rightarrow>
          (case expect '','' r1 of
             Inl e \<Rightarrow> Inl e
           | Inr r2 \<Rightarrow>
               (case expr (length r2) r2 of
                  Inl e \<Rightarrow> Inl e
                | Inr (n, r3) \<Rightarrow>
                    (case expect '')'' r3 of
                       Inl e \<Rightarrow> Inl e
                     | Inr r4 \<Rightarrow> Inr ((to_text p, to_text n), r4)))))"

text \<open>
  The rows of the \<^verbatim>\<open>values\<close> clause, up to the end of the statement.  A statement ends
  at a semicolon or at the end of the text; \<^verbatim>\<open>execute\<close> refuses text that goes on after
  the semicolon.
\<close>

fun rows :: "nat \<Rightarrow> token list \<Rightarrow> error + (string \<times> string) list" where
  "rows 0 ts = Inl Unmodelled"
| "rows (Suc k) ts =
     (case expect ''('' ts of
        Inl e \<Rightarrow> Inl e
      | Inr r \<Rightarrow>
          (case row r of
             Inl e \<Rightarrow> Inl e
           | Inr (pn, rest) \<Rightarrow>
               (case rest of
                  [] \<Rightarrow> Inr [pn]
                | t # r' \<Rightarrow>
                    if t = TSym '';'' then (if r' = [] then Inr [pn] else Inl StorageError)
                    else if t = TSym '','' then
                      (case rows k r' of Inl e \<Rightarrow> Inl e | Inr pns \<Rightarrow> Inr (pn # pns))
                    else Inl (junk t))))"

definition INSERT_INTO :: "token list" where
  "INSERT_INTO =
     [TWord ''insert'', TWord ''or'', TWord ''ignore'', TWord ''into'', TWord ''counters'',
      TSym ''('', TWord ''path'', TSym '','', TWord ''name'', TSym '')'', TWord ''values'']"

text \<open>
  \<^verbatim>\<open>execute\<close> refuses a statement text that contains a null character.  Otherwise the text
  is read as tokens; the statement interpreted here is the one that starts with the tokens
  of the template.
\<close>

definition parse_insert :: "string \<Rightarrow> error + (string \<times> string) list" where
  "parse_insert sql =
     (if CHR 0x00 \<in> set sql then Inl StorageError
      else
        (case tokenize sql of
           Inl e \<Rightarrow> Inl e
         | Inr ts \<Rightarrow>
             if take (length INSERT_INTO) ts = INSERT_INTO
             then rows (length ts) (drop (length INSERT_INTO) ts)
             else Inl Unmodelled))"

text \<open>
  \<^verbatim>\<open>insert or ignore\<close>: a row whose path is already present is skipped when a unique index
  on \<^verbatim>\<open>counters(path)\<close> exists; every other row is appended under a fresh key.
\<close>

fun unique_on_path :: "schema_obj \<Rightarrow> bool" where
  "unique_on_path (Index n t c u) = (t = ''counters'' \<and> c = ''path'' \<and> u)"
| "unique_on_path (Table n) = False"

definition path_taken :: "db \<Rightarrow> string \<Rightarrow> bool" where
  "path_taken d p = (list_ex unique_on_path (schema d) \<and> p \<in> set (map path (counters d)))"

fun insert_or_ignore :: "(string \<times> string) list \<Rightarrow> db \<Rightarrow> db" where
  "insert_or_ignore [] d = d"
| "insert_or_ignore (pn # pns) d =
     insert_or_ignore pns
       (if path_taken d (fst pn) then d
        else d\<lparr>counters := counters d @
               [\<lparr>counter_id = next_rowid (map counter_id (counters d)),
                 path = fst pn, name = snd pn\<rparr>]\<rparr>)"

definition add_counter :: "connection \<Rightarrow> string \<Rightarrow> string \<Rightarrow> error + connection" where
  "add_counter conn p n =
     (case parse_insert (ADD_COUNTER_SQL p n) of
        Inl e \<Rightarrow> Inl e
      | Inr pns \<Rightarrow>
          if has_table (view conn) ''counters'' then Inr (dml (insert_or_ignore pns) conn)
          else Inl StorageError)"

section \<open>The counter sampler\<close>

text \<open>
  A path of the file system is missing, unreadable, or holds text.  Text is a list of
  characters with code points below 256.
\<close>

datatype file_state = Missing | Unreadable | Text string

text \<open>
  Python's \<^verbatim>\<open>int(s)\<close> on a string: surrounding whitespace is dropped, one sign may
  lead, and the rest is a non-empty run of decimal digits in which single underscores may
  stand between digits.  The interpreter refuses a string of more than 4300 digits,
  leading zeros included.
\<close>

fun count_digits :: "string \<Rightarrow> int" where
  "count_digits [] = 0"
| "count_digits (c # cs) = (if is_digit c then 1 else 0) + count_digits cs"

definition py_isspace :: "char \<Rightarrow> bool" where
  "py_isspace c = (of_char c \<in> {9, 10, 11, 12, 13, 32, 133, 160 :: nat})"

definition strip :: "string \<Rightarrow> string" where
  "strip s = rev (dropWhile py_isspace (rev (dropWhile py_isspace s)))"

fun digits_val :: "nat \<Rightarrow> string \<Rightarrow> nat option" where
  "digits_val acc [] = Some acc"
| "digits_val acc [c] = (if is_digit c then Some (10 * acc + digit_val c) else None)"
| "digits_val acc (c # d # ds) =
     (if is_digit c then digits_val (10 * acc + digit_val c) (d # ds)
      else if c = CHR ''_'' \<and> is_digit d then digits_val (10 * acc + digit_val d) ds
      else None)"

definition parse_nat :: "string \<Rightarrow> nat option" where
  "parse_nat s =
     (case s of
        [] \<Rightarrow> None
      | c # cs \<Rightarrow> if is_digit c then digits_val (digit_val c) cs else None)"

definition py_int :: "string \<Rightarrow> int option" where
  "py_int s =
     (if 4300 < count_digits s then None
      else
        (case strip s of
           [] \<Rightarrow> None
         | c # cs \<Rightarrow>
             if c = CHR ''-'' then map_option (\<lambda>n. - int n) (parse_nat cs)
             else if c = CHR ''+'' then map_option int (parse_nat cs)
             else map_option int (parse_nat (c # cs))))"

definition read_counter :: "(string \<Rightarrow> file_state) \<Rightarrow> string \<Rightarrow> error + int" where
  "read_counter files p =
     (case files p of
        Missing \<Rightarrow> Inl SampleReadError
      | Unreadable \<Rightarrow> Inl SampleReadError
      | Text s \<Rightarrow> (case py_int s of None \<Rightarrow> Inl SampleParseError | Some n \<Rightarrow> Inr n))"

section \<open>The credentials file\<close>

text \<open>
  \<^verbatim>\<open>json.dump\<close> of a dictionary whose values are strings and integers.  A string is
  written between double quotes with the quote, the backslash and every character outside
  the printable ASCII range escaped; entries are separated by \<^verbatim>\<open>", "\<close> and a key from its
  value by \<^verbatim>\<open>": "\<close>.
\<close>

datatype json = JStr string | JInt int

definition hex_char :: "nat \<Rightarrow> char" where
  "hex_char k = (if k < 10 then char_of (48 + k) else char_of (87 + k))"

definition escape_char :: "char \<Rightarrow> string" where
  "escape_char c =
     (if c = CHR 0x22 then [CHR 0x5C, CHR 0x22]
      else if c = CHR 0x5C then [CHR 0x5C, CHR 0x5C]
      else if c = CHR 0x0A then [CHR 0x5C, CHR ''n'']
      else if c = CHR 0x0D then [CHR 0x5C, CHR ''r'']
      else if c = CHR 0x09 then [CHR 0x5C, CHR ''t'']
      else if c = CHR 0x08 then [CHR 0x5C, CHR ''b'']
      else if c = CHR 0x0C then [CHR 0x5C, CHR ''f'']
      else if 32 \<le> (of_char c :: nat) \<and> (of_char c :: nat) \<le> 126 then [c]
      else [CHR 0x5C, CHR ''u'', CHR ''0'', CHR ''0'',
            hex_char (of_char c div 16), hex_char (of_char c mod 16)])"

definition encode_basestring_ascii :: "string \<Rightarrow> string" where
  "encode_basestring_ascii s = CHR 0x22 # concat (map escape_char s) @ [CHR 0x22]"

fun encode_value :: "json \<Rightarrow> string" where
  "encode_value (JStr s) = encode_basestring_ascii s"
| "encode_value (JInt i) = str_of_int i"

definition encode_item :: "string \<times> json \<Rightarrow> string" where
  "encode_item kv = encode_basestring_ascii (fst kv) @ '': '' @ encode_value (snd kv)"

fun join :: "string \<Rightarrow> string list \<Rightarrow> string" where
  "join sep [] = []"
| "join sep [x] = x"
| "join sep (x # y # ys) = x @ sep @ join sep (y # ys)"

definition json_dumps :: "(string \<times> json) list \<Rightarrow> string" where
  "json_dumps d = ''{'' @ join '', '' (map encode_item d) @ ''}''"

text \<open>
  \<^verbatim>\<open>json.load\<close> on the same fragment of JSON: one object whose values are strings and
  integers.  Text that breaks the JSON grammar gives \<open>CredentialsError\<close>; a value of
  another JSON kind (array, object, fraction, exponent, literal name) or an escaped
  character above code point 255 gives \<open>Unmodelled\<close>.
\<close>

definition json_ws :: "char \<Rightarrow> bool" where
  "json_ws c = (c = CHR 0x20 \<or> c = CHR 0x09 \<or> c = CHR 0x0A \<or> c = CHR 0x0D)"

definition unhex :: "char \<Rightarrow> nat option" where
  "unhex c =
     (let n = (of_char c :: nat) in
      if 48 \<le> n \<and> n \<le> 57 then Some (n - 48)
      else if 97 \<le> n \<and> n \<le> 102 then Some (n - 87)
      else if 65 \<le> n \<and> n \<le> 70 then Some (n - 55)
      else None)"

definition unhex4 :: "char \<Rightarrow> char \<Rightarrow> char \<Rightarrow> char \<Rightarrow> nat option" where
  "unhex4 a b c d =
     (case (unhex a, unhex b, unhex c, unhex d) of
        (Some p, Some q, Some r, Some s) \<Rightarrow> Some (4096 * p + 256 * q + 16 * r + s)
      | _ \<Rightarrow> None)"

definition unescape :: "char \<Rightarrow> char option" where
  "unescape e =
     (if e = CHR 0x22 then Some (CHR 0x22)
      else if e = CHR 0x5C then Some (CHR 0x5C)
      else if e = CHR ''/'' then Some (CHR ''/'')
      else if e = CHR ''b'' then Some (CHR 0x08)
      else if e = CHR ''f'' then Some (CHR 0x0C)
      else if e = CHR ''n'' then Some (CHR 0x0A)
      else if e = CHR ''r'' then Some (CHR 0x0D)
      else if e = CHR ''t'' then Some (CHR 0x09)
      else None)"

definition consR :: "char \<Rightarrow> error + string \<times> string \<Rightarrow> error + string \<times> string" where
  "consR c r = (case r of Inl e \<Rightarrow> Inl e | Inr (s, rest) \<Rightarrow> Inr (c # s, rest))"

text \<open>\<open>scanstring\<close> reads a string from just after its opening quote.\<close>

fun scanstring :: "string \<Rightarrow> error + string \<times> string" where
  "scanstring [] = Inl CredentialsError"
| "scanstring (c # cs) =
     (if c = CHR 0x22 then Inr ([], cs)
      else if c = CHR 0x5C then
        (case cs of
           [] \<Rightarrow> Inl CredentialsError
         | e # r \<Rightarrow>
             if e = CHR ''u'' then
               (case r of
                  h1 # h2 # h3 # h4 # r' \<Rightarrow>
                    (case unhex4 h1 h2 h3 h4 of
                       None \<Rightarrow> Inl CredentialsError
                     | Some n \<Rightarrow> if n < 256 then consR (char_of n) (scanstring r')
                                else Inl Unmodelled)
                | _ \<Rightarrow> Inl CredentialsError)
             else
               (case unescape e of
                  None \<Rightarrow> Inl CredentialsError
                | Some ch \<Rightarrow> consR ch (scanstring r)))
      else if (of_char c :: nat) < 32 then Inl CredentialsError
      else consR c (scanstring cs))"

text \<open>
  A JSON integer: an optional minus sign, then \<^verbatim>\<open>0\<close> or a run of digits that does not
  start with \<^verbatim>\<open>0\<close>.
\<close>

fun scan_digits :: "nat \<Rightarrow> string \<Rightarrow> nat \<times> string" where
  "scan_digits acc [] = (acc, [])"
| "scan_digits acc (c # cs) =
     (if is_digit c then scan_digits (10 * acc + digit_val c) cs else (acc, c # cs))"

definition scan_nat :: "string \<Rightarrow> error + nat \<times> string" where
  "scan_nat s =
     (case s of
        [] \<Rightarrow> Inl CredentialsError
      | c # cs \<Rightarrow>
          if c = CHR ''0'' then Inr (0, cs)
          else if is_digit c then Inr (scan_digits (digit_val c) cs)
          else if c \<in> set ''IN'' then Inl Unmodelled
          else Inl CredentialsError)"

definition not_integer :: "string \<Rightarrow> bool" where
  "not_integer rest = (case rest of [] \<Rightarrow> False | c # cs \<Rightarrow> c \<in> set ''.eE'')"

definition scan_value :: "string \<Rightarrow> error + json \<times> string" where
  "scan_value s =
     (case s of
        [] \<Rightarrow> Inl CredentialsError
      | c # cs \<Rightarrow>
          if c = CHR 0x22 then
            (case scanstring cs of Inl e \<Rightarrow> Inl e | Inr (v, rest) \<Rightarrow> Inr (JStr v, rest))
          else if c = CHR ''-'' then
            (case scan_nat cs of
               Inl e \<Rightarrow> Inl e
             | Inr (n, rest) \<Rightarrow> if not_integer rest then Inl Unmodelled
                               else Inr (JInt (- int n), rest))
          else if is_digit c then
            (case scan_nat (c # cs) of
               Inl e \<Rightarrow> Inl e
             | Inr (n, rest) \<Rightarrow> if not_integer rest then Inl Unmodelled
                               else Inr (JInt (int n), rest))
          else if c \<in> set ''[{tfnNI'' then Inl Unmodelled
          else Inl CredentialsError)"

text \<open>
  \<open>scan_items n s\<close> reads the entries of an object from the opening quote of a key on,
  up to and including the closing brace; \<open>n\<close> bounds the number of entries and is taken
  as the length of the text, which no object exceeds.
\<close>

fun scan_items :: "nat \<Rightarrow> string \<Rightarrow> error + (string \<times> json) list \<times> string" where
  "scan_items 0 s = Inl CredentialsError"
| "scan_items (Suc n) s =
     (case s of
        [] \<Rightarrow> Inl CredentialsError
      | q # s1 \<Rightarrow>
          if q \<noteq> CHR 0x22 then Inl CredentialsError
          else
            (case scanstring s1 of
               Inl e \<Rightarrow> Inl e
             | Inr (k, s2) \<Rightarrow>
                 (case dropWhile json_ws s2 of
                    [] \<Rightarrow> Inl CredentialsError
                  | col # s3 \<Rightarrow>
                      if col \<noteq> CHR '':'' then Inl CredentialsError
                      else
                        (case scan_value (dropWhile json_ws s3) of
                           Inl e \<Rightarrow> Inl e
                         | Inr (v, s4) \<Rightarrow>
                             (case dropWhile json_ws s4 of
                                [] \<Rightarrow> Inl CredentialsError
                              | d # s5 \<Rightarrow>
                                  if d = CHR ''}'' then Inr ([(k, v)], s5)
                                  else if d = CHR '','' then
                                    (case scan_items n (dropWhile json_ws s5) of
                                       Inl e \<Rightarrow> Inl e
                                     | Inr (kvs, s6) \<Rightarrow> Inr ((k, v) # kvs, s6))
                                  else Inl CredentialsError)))))"

definition json_loads :: "string \<Rightarrow> error + (string \<times> json) list" where
  "json_loads s =
     (case dropWhile json_ws s of
        [] \<Rightarrow> Inl CredentialsError
      | b # s1 \<Rightarrow>
          if b = CHR ''{'' then
            (case dropWhile json_ws s1 of
               [] \<Rightarrow> Inl CredentialsError
             | c # s2 \<Rightarrow>
                 if c = CHR ''}'' then
                   (if dropWhile json_ws s2 = [] then Inr [] else Inl CredentialsError)
                 else
                   (case scan_items (length s) (c # s2) of
                      Inl e \<Rightarrow> Inl e
                    | Inr (kvs, rest) \<Rightarrow>
                        if dropWhile json_ws rest = [] then Inr kvs
                        else Inl CredentialsError))
          else if b \<in> set ''[tfnNI-0123456789'' then Inl Unmodelled
          else Inl CredentialsError)"

text \<open>A value inside an object is followed by a comma or by the closing brace.\<close>

definition closes :: "string \<Rightarrow> bool" where
  "closes t = (case t of [] \<Rightarrow> False | c # r \<Rightarrow> c = CHR '','' \<or> c = CHR ''}'')"

text \<open>
  \<open>write_credentials_file\<close> takes the four command-line arguments (the port already
  converted to an integer by the argument parser) and the password typed at the prompt;
  it yields the new content of the credentials file.
\<close>

definition write_credentials_file ::
  "string \<Rightarrow> int \<Rightarrow> string \<Rightarrow> string \<Rightarrow> string \<Rightarrow> file_state" where
  "write_credentials_file smtp_server smtp_port sender recipient password =
     Text (json_dumps
       [(''smtp_server'', JStr smtp_server),
        (''smtp_port'', JInt smtp_port),
        (''sender'', JStr sender),
        (''recipient'', JStr recipient),
        (''password'', JStr password)])"

definition load_credentials :: "file_state \<Rightarrow> error + (string \<times> json) list" where
  "load_credentials f =
     (case f of
        Missing \<Rightarrow> Inl CredentialsError
      | Unreadable \<Rightarrow> Inl CredentialsError
      | Text s \<Rightarrow> json_loads s)"

text \<open>
  \<^verbatim>\<open>d[k]\<close> on the loaded dictionary: a key written twice in the file keeps its last
  value, an absent key is an error.
\<close>

definition getitem :: "(string \<times> json) list \<Rightarrow> string \<Rightarrow> error + json" where
  "getitem d k = (case map_of (rev d) k of None \<Rightarrow> Inl CredentialsError | Some v \<Rightarrow> Inr v)"

definition get_str :: "(string \<times> json) list \<Rightarrow> string \<Rightarrow> error + string" where
  "get_str d k =
     (case getitem d k of
        Inl e \<Rightarrow> Inl e
      | Inr (JStr s) \<Rightarrow> Inr s
      | Inr (JInt i) \<Rightarrow> Inl Unmodelled)"

definition get_int :: "(string \<times> json) list \<Rightarrow> string \<Rightarrow> error + int" where
  "get_int d k =
     (case getitem d k of
        Inl e \<Rightarrow> Inl e
      | Inr (JInt i) \<Rightarrow> Inr i
      | Inr (JStr s) \<Rightarrow> Inl Unmodelled)"

section \<open>Report delivery\<close>

text \<open>
  A message has the three headers the program sets and the text parts attached to it.
  The mail server is part of the environment: it says whether a connection to a host and
  port opens, whether the upgrade to an encrypted session succeeds, which logins it
  accepts, which messages it accepts, and whether the session closes cleanly.
\<close>

record message =
  msg_from :: string
  msg_to :: string
  msg_subject :: string
  msg_parts :: "string list"

record smtp_server =
  connects :: "string \<Rightarrow> int \<Rightarrow> bool"
  starttls_ok :: bool
  login_ok :: "string \<Rightarrow> string \<Rightarrow> bool"
  accepts :: "message \<Rightarrow> bool"
  quit_ok :: bool

definition format_line :: "string \<times> int \<Rightarrow> string" where
  "format_line entry = fst entry @ '': '' @ str_of_int (snd entry)"

definition message_text :: "(string \<times> int) list \<Rightarrow> string" where
  "message_text report = join [newline] (map format_line report)"

text \<open>
  \<open>send_mail\<close> returns the error that ended it, if any, and the messages it has handed
  to the server.
\<close>

definition send_mail ::
  "file_state \<Rightarrow> smtp_server \<Rightarrow> (string \<times> int) list \<Rightarrow> error option \<times> message list" where
  "send_mail credentials server report =
     (case load_credentials credentials of
        Inl e \<Rightarrow> (Some e, [])
      | Inr d \<Rightarrow>
     (case get_str d ''smtp_server'' of
        Inl e \<Rightarrow> (Some e, [])
      | Inr host \<Rightarrow>
     (case get_int d ''smtp_port'' of
        Inl e \<Rightarrow> (Some e, [])
      | Inr port \<Rightarrow>
     if \<not> connects server host port then (Some DeliveryError, [])
     else if \<not> starttls_ok server then (Some DeliveryError, [])
     else
     (case get_str d ''sender'' of
        Inl e \<Rightarrow> (Some e, [])
      | Inr sender \<Rightarrow>
     (case get_str d ''password'' of
        Inl e \<Rightarrow> (Some e, [])
      | Inr password \<Rightarrow>
     if \<not> login_ok server sender password then (Some DeliveryError, [])
     else
     (case get_str d ''recipient'' of
        Inl e \<Rightarrow> (Some e, [])
      | Inr recipient \<Rightarrow>
     (let msg = \<lparr>msg_from = sender, msg_to = recipient,
                 msg_subject = ''Linux healthcheck report'',
                 msg_parts = [message_text report]\<rparr>
      in if \<not> accepts server msg then (Some DeliveryError, [msg])
         else if \<not> quit_ok server then (Some DeliveryError, [msg])
         else (None, [msg]))))))))"

text \<open>
  The message that \<open>send_mail\<close> composes for a report: the fixed subject, and one text
  part with a line \<^verbatim>\<open>name: delta\<close> for each entry, joined by newlines.
\<close>

definition report_message :: "string \<Rightarrow> string \<Rightarrow> (string \<times> int) list \<Rightarrow> message" where
  "report_message sender recipient report =
     \<lparr>msg_from = sender, msg_to = recipient, msg_subject = ''Linux healthcheck report'',
      msg_parts = [join [newline] (map (\<lambda>(name, delta). name @ '': '' @ str_of_int delta) report)]\<rparr>"

section \<open>The commands\<close>

text \<open>
  The environment of a run: the files behind the counter paths, the clock (\<open>clock i\<close> is
  its reading while the \<open>i\<close>-th counter of the run is processed), the credentials file and
  the mail server.
\<close>

record env =
  files :: "string \<Rightarrow> file_state"
  clock :: "nat \<Rightarrow> nat"
  credentials :: file_state
  server :: smtp_server

text \<open>
  \<open>new_counter\<close> returns the error that ended the command, if any, and the store it
  leaves on disk.
\<close>

definition new_counter :: "db \<Rightarrow> string \<Rightarrow> string \<Rightarrow> error option \<times> db" where
  "new_counter store p n =
     (case create_schema (get_connection store) of
        (Some e, conn) \<Rightarrow> (Some e, disk conn)
      | (None, conn) \<Rightarrow>
          (case add_counter conn p n of
             Inl e \<Rightarrow> (Some e, disk conn)
           | Inr conn' \<Rightarrow> (None, disk (commit conn'))))"

text \<open>
  The loop of \<open>main\<close> over the registered counters, carrying the connection and the
  report; \<open>i\<close> counts the counters processed so far.  A baseline outside the 64-bit range
  is a floating-point number: the comparison with it is exact, but the difference would be
  computed in floating point, which is not interpreted.
\<close>

fun main_loop ::
  "env \<Rightarrow> nat \<Rightarrow> connection \<Rightarrow> (string \<times> int) list \<Rightarrow> counter_row list
     \<Rightarrow> error + connection \<times> (string \<times> int) list" where
  "main_loop e i conn report [] = Inr (conn, report)"
| "main_loop e i conn report (c # cs) =
     (case get_counter conn (counter_id c) of
        Inl err \<Rightarrow> Inl err
      | Inr old_value \<Rightarrow>
          (case read_counter (files e) (path c) of
             Inl err \<Rightarrow> Inl err
           | Inr new_value \<Rightarrow>
               if new_value > old_value then
                 (if \<not> int64 old_value then Inl Unmodelled
                  else
                    (case update_counter conn (clock e i) (counter_id c) new_value of
                       Inl err \<Rightarrow> Inl err
                     | Inr conn' \<Rightarrow>
                         main_loop e (Suc i) conn'
                           (report @ [(name c, new_value - old_value)]) cs))
               else main_loop e (Suc i) conn report cs))"

text \<open>
  The result of a run: the error that ended it or the report it built, the store it
  leaves on disk, the reports passed to \<open>send_mail\<close>, and the messages handed to the
  mail server.
\<close>

record run =
  outcome :: "error + (string \<times> int) list"
  persisted :: db
  deliveries :: "(string \<times> int) list list"
  submitted :: "message list"

definition main :: "env \<Rightarrow> db \<Rightarrow> run" where
  "main e store =
     (let conn = get_connection store in
      case get_counters conn of
        Inl err \<Rightarrow>
          \<lparr>outcome = Inl err, persisted = disk conn, deliveries = [], submitted = []\<rparr>
      | Inr cs \<Rightarrow>
          (case main_loop e 0 conn [] cs of
             Inl err \<Rightarrow>
               \<lparr>outcome = Inl err, persisted = disk conn, deliveries = [], submitted = []\<rparr>
           | Inr (conn', report) \<Rightarrow>
               if length report > 0 then
                 (case send_mail (credentials e) (server e) report of
                    (Some err, sent) \<Rightarrow>
                      \<lparr>outcome = Inl err, persisted = disk conn',
                       deliveries = [report], submitted = sent\<rparr>
                  | (None, sent) \<Rightarrow>
                      \<lparr>outcome = Inr report, persisted = disk (commit conn'),
                       deliveries = [report], submitted = sent\<rparr>)
               else
                 \<lparr>outcome = Inr report, persisted = disk (commit conn'),
                  deliveries = [], submitted = []\<rparr>))"

text \<open>
  The entry a counter contributes to the report of a run that starts on connection
  \<open>conn\<close>: its name and the increase of its current value over its baseline, when there
  is an increase.
\<close>

definition entry :: "env \<Rightarrow> connection \<Rightarrow> counter_row \<Rightarrow> (string \<times> int) list" where
  "entry e conn c =
     (case get_counter conn (counter_id c) of
        Inl err \<Rightarrow> []
      | Inr baseline \<Rightarrow>
          (case read_counter (files e) (path c) of
             Inl err \<Rightarrow> []
           | Inr current \<Rightarrow>
               if current > baseline then [(name c, current - baseline)] else []))"

section \<open>Example data\<close>

text \<open>
  A store with two registered counters, one earlier sample of each, and two environments:
  one in which the first counter has risen from 10 to 15 and the second still reads 7, and
  one in which the file of the second counter is gone.
\<close>

definition ex_store :: db where
  "ex_store =
     \<lparr>schema = full_schema,
      counters =
        [\<lparr>counter_id = 1, path = ''/sys/a'', name = ''bank 0''\<rparr>,
         \<lparr>counter_id = 2, path = ''/sys/b'', name = ''bank 1''\<rparr>],
      counter_counts =
        [\<lparr>counter_count_id = 1, counters_counter_id = 1, count = 10, access_time = 100\<rparr>,
         \<lparr>counter_count_id = 2, counters_counter_id = 2, count = 7, access_time = 100\<rparr>]\<rparr>"

definition ex_server :: smtp_server where
  "ex_server =
     \<lparr>connects = (\<lambda>h p. True), starttls_ok = True, login_ok = (\<lambda>u p. True),
      accepts = (\<lambda>m. True), quit_ok = True\<rparr>"

definition ex_env :: env where
  "ex_env =
     \<lparr>files = (\<lambda>p. if p = ''/sys/a'' then Text ''15''
                   else if p = ''/sys/b'' then Text ''7'' else Missing),
      clock = (\<lambda>i. 200),
      credentials = write_credentials_file ''mail'' 587 ''me'' ''you'' ''pw'',
      server = ex_server\<rparr>"

definition ex_env_broken :: env where
  "ex_env_broken =
     \<lparr>files = (\<lambda>p. if p = ''/sys/a'' then Text ''15'' else Missing),
      clock = (\<lambda>i. 200),
      credentials = write_credentials_file ''mail'' 587 ''me'' ''you'' ''pw'',
      server = ex_server\<rparr>"



definition ex_counter_b :: counter_row where
  "ex_counter_b = \<lparr>counter_id = 2, path = ''/sys/b'', name = ''bank 1''\<rparr>"

text \<open>
  A counter name that is an SQL expression once it stands between the quotes of the
  template, and whose value is the name itself.
\<close>

definition quine_template :: string where
  "quine_template = ''! || replace(replace(!$!, char(33), char(39)), char(36), !$!) || !''"

definition quine_name :: string where
  "quine_name =
     [squote] @ '' || replace(replace('' @ [squote] @ quine_template @ [squote] @
     '', char(33), char(39)), char(36), '' @ [squote] @ quine_template @ [squote] @
     '') || '' @ [squote]"

section \<open>Properties of the latest value\<close>

lemma max_row_None_iff:
  "max_row later best rs = None \<longleftrightarrow> best = None \<and> rs = []"
  by (induction later best rs rule: max_row.induct) auto

lemma max_row_mem:
  "max_row later best rs = Some m \<Longrightarrow> best = Some m \<or> m \<in> set rs"
  by (induction later best rs rule: max_row.induct) (auto split: if_splits)

lemma max_row_ge_best:
  "max_row later (Some b) rs = Some m \<Longrightarrow> access_time b \<le> access_time m"
  by (induction later "Some b" rs arbitrary: b rule: max_row.induct)
     (fastforce split: if_splits)+

lemma max_row_ge:
  "max_row later best rs = Some m \<Longrightarrow> r \<in> set rs \<Longrightarrow> access_time r \<le> access_time m"
proof (induction later best rs rule: max_row.induct)
  case (1 later best)
  then show ?case by simp
next
  case (2 later r' rs)
  then show ?case
    using max_row_ge_best [of later r' rs m] by auto
next
  case (3 later b r' rs)
  show ?case
  proof (cases "access_time b < access_time r' \<or> (later \<and> access_time b = access_time r')")
    case True
    with 3 show ?thesis
      using max_row_ge_best [of later r' rs m] by auto
  next
    case False
    with 3 show ?thesis
      using max_row_ge_best [of later b rs m] by auto
  qed
qed

text \<open>
  C3.  On a store whose \<^verbatim>\<open>counter_counts\<close> table exists, \<open>get_counter\<close> (the
  \<^verbatim>\<open>latest_value\<close> of the specification) never fails: it returns 0 when the counter has
  no sample, and otherwise the count of one of the counter's samples whose timestamp is
  greatest among all samples of that counter.
\<close>

theorem get_counter_latest:
  "has_table (view conn) ''counter_counts'' \<longrightarrow>
     (samples_of (view conn) cid = [] \<longrightarrow> get_counter conn cid = Inr 0) \<and>
     (samples_of (view conn) cid \<noteq> [] \<longrightarrow>
        (\<exists>m \<in> set (samples_of (view conn) cid).
           get_counter conn cid = Inr (count m) \<and>
           (\<forall>r \<in> set (samples_of (view conn) cid). access_time r \<le> access_time m)))"
proof (intro impI conjI)
  assume "has_table (view conn) ''counter_counts''" "samples_of (view conn) cid = []"
  then show "get_counter conn cid = Inr 0"
    by (simp add: get_counter_def QUERY_COUNTER_SQL_def)
next
  let ?rs = "samples_of (view conn) cid"
  let ?later = "has_index (view conn) ''counter_counts_access_time''"
  assume t: "has_table (view conn) ''counter_counts''" and ne: "?rs \<noteq> []"
  from ne obtain m where m: "max_row ?later None ?rs = Some m"
    using max_row_None_iff [of ?later None ?rs] by (cases "max_row ?later None ?rs") auto
  then have "m \<in> set ?rs"
    using max_row_mem [of ?later None ?rs m] by simp
  moreover have "get_counter conn cid = Inr (count m)"
    using t m by (simp add: get_counter_def QUERY_COUNTER_SQL_def)
  moreover have "\<forall>r \<in> set ?rs. access_time r \<le> access_time m"
    using m max_row_ge by blast
  ultimately show "\<exists>m \<in> set ?rs. get_counter conn cid = Inr (count m) \<and>
      (\<forall>r \<in> set ?rs. access_time r \<le> access_time m)"
    by blast
qed

theorem get_counter_latest_witness:
  "has_table (view (get_connection ex_store)) ''counter_counts'' \<and>
   samples_of (view (get_connection ex_store)) 1 \<noteq> [] \<and>
   get_counter (get_connection ex_store) 1 = Inr 10 \<and>
   (\<exists>m \<in> set (samples_of (view (get_connection ex_store)) 1).
      get_counter (get_connection ex_store) 1 = Inr (count m) \<and>
      (\<forall>r \<in> set (samples_of (view (get_connection ex_store)) 1).
         access_time r \<le> access_time m))"
proof -
  have t: "has_table (view (get_connection ex_store)) ''counter_counts''"
    by code_simp
  have n: "samples_of (view (get_connection ex_store)) 1 \<noteq> []"
    by code_simp
  have v: "get_counter (get_connection ex_store) 1 = Inr 10"
    by code_simp
  from get_counter_latest [of "get_connection ex_store" 1] t n v show ?thesis
    by blast
qed

section \<open>Properties of a run\<close>

lemma view_dml [simp]: "view (dml f conn) = f (view conn)"
  by (simp add: dml_def view_def)

lemma disk_dml [simp]: "disk (dml f conn) = disk conn"
  by (simp add: dml_def)

lemma update_counter_Inr:
  "update_counter conn now cid n = Inr conn' \<Longrightarrow>
     \<exists>v. stored_count n = Some v \<and> has_table (view conn) ''counter_counts'' \<and>
       conn' = dml (\<lambda>w. insert_sample now cid v (view conn)) conn"
  by (auto simp: update_counter_def UPDATE_COUNTER_SQL_def
           split: if_splits option.splits sum.splits)

lemma schema_insert_sample [simp]: "schema (insert_sample now cid v d) = schema d"
  by (simp add: insert_sample_def)

lemma counters_insert_sample [simp]: "counters (insert_sample now cid v d) = counters d"
  by (simp add: insert_sample_def)

lemma samples_of_insert_sample:
  "samples_of (insert_sample now cid n d) cid' =
     (if cid' = cid
      then samples_of d cid @
        [\<lparr>counter_count_id = next_rowid (map counter_count_id (counter_counts d)),
          counters_counter_id = cid, count = n, access_time = now\<rparr>]
      else samples_of d cid')"
  by (simp add: insert_sample_def samples_of_def)

lemma get_counter_cong:
  "schema (view a) = schema (view b) \<Longrightarrow> samples_of (view a) cid = samples_of (view b) cid \<Longrightarrow>
     get_counter a cid = get_counter b cid"
  by (simp add: get_counter_def QUERY_COUNTER_SQL_def has_table_def has_index_def)

lemma main_loop_disk:
  "main_loop e i conn rep cs = Inr (conn', rep') \<Longrightarrow> disk conn' = disk conn"
proof (induction cs arbitrary: i conn rep)
  case Nil
  then show ?case by simp
next
  case (Cons c cs)
  then show ?case
    by (auto split: sum.splits if_splits dest!: update_counter_Inr)
qed

lemma main_loop_schema:
  "main_loop e i conn rep cs = Inr (conn', rep') \<Longrightarrow>
     schema (view conn') = schema (view conn) \<and> counters (view conn') = counters (view conn)"
proof (induction cs arbitrary: i conn rep)
  case Nil
  then show ?case by simp
next
  case (Cons c cs)
  then show ?case
    by (auto split: sum.splits if_splits dest!: update_counter_Inr)
qed

lemma main_loop_other:
  "main_loop e i conn rep cs = Inr (conn', rep') \<Longrightarrow> cid \<notin> counter_id ` set cs \<Longrightarrow>
     samples_of (view conn') cid = samples_of (view conn) cid"
proof (induction cs arbitrary: i conn rep)
  case Nil
  then show ?case by simp
next
  case (Cons c cs)
  then show ?case
    by (auto split: sum.splits if_splits dest!: update_counter_Inr simp: samples_of_insert_sample)
qed

lemma entry_cong:
  "schema (view a) = schema (view b) \<Longrightarrow>
   samples_of (view a) (counter_id c) = samples_of (view b) (counter_id c) \<Longrightarrow>
     entry e a c = entry e b c"
  using get_counter_cong [of a b "counter_id c"] by (simp add: entry_def)

lemma main_loop_report:
  "main_loop e i conn rep cs = Inr (conn', rep') \<Longrightarrow> distinct (map counter_id cs) \<Longrightarrow>
     rep' = rep @ concat (map (entry e conn) cs)"
proof (induction cs arbitrary: i conn rep)
  case Nil
  then show ?case by simp
next
  case (Cons c cs)
  from Cons.prems(1) obtain old new where
    old: "get_counter conn (counter_id c) = Inr old" and
    new: "read_counter (files e) (path c) = Inr new"
    by (auto split: sum.splits)
  have d: "distinct (map counter_id cs)" and nin: "\<forall>x \<in> set cs. counter_id x \<noteq> counter_id c"
    using Cons.prems(2) by (auto simp: image_iff)
  show ?case
  proof (cases "new > old")
    case False
    with Cons.prems(1) old new have "main_loop e (Suc i) conn rep cs = Inr (conn', rep')"
      by simp
    moreover have "entry e conn c = []"
      using False old new by (simp add: entry_def)
    ultimately show ?thesis
      using Cons.IH [OF _ d] by simp
  next
    case True
    with Cons.prems(1) old new obtain conn1 where
      u: "update_counter conn (clock e i) (counter_id c) new = Inr conn1" and
      l: "main_loop e (Suc i) conn1 (rep @ [(name c, new - old)]) cs = Inr (conn', rep')"
      by (auto split: sum.splits if_splits)
    from u obtain v where
      c1: "conn1 = dml (\<lambda>w. insert_sample (clock e i) (counter_id c) v (view conn)) conn"
      by (auto dest: update_counter_Inr)
    have "\<forall>x \<in> set cs. entry e conn1 x = entry e conn x"
      using nin by (auto intro!: entry_cong simp: c1 samples_of_insert_sample)
    then have m: "map (entry e conn1) cs = map (entry e conn) cs"
      by simp
    have "rep' = (rep @ [(name c, new - old)]) @ concat (map (entry e conn1) cs)"
      using Cons.IH [OF l d] .
    moreover have "entry e conn c = [(name c, new - old)]"
      using True old new by (simp add: entry_def)
    ultimately show ?thesis
      using m by simp
  qed
qed


lemma main_loop_samples:
  "main_loop e i conn rep cs = Inr (conn', rep') \<Longrightarrow> distinct (map counter_id cs) \<Longrightarrow>
   c \<in> set cs \<Longrightarrow> get_counter conn (counter_id c) = Inr old \<Longrightarrow>
   read_counter (files e) (path c) = Inr new \<Longrightarrow>
     (if new > old
      then int64 old \<and>
           (\<exists>s. samples_of (view conn') (counter_id c) = samples_of (view conn) (counter_id c) @ [s]
              \<and> stored_count new = Some (count s))
      else samples_of (view conn') (counter_id c) = samples_of (view conn) (counter_id c))"
proof (induction cs arbitrary: i conn rep)
  case Nil
  then show ?case by simp
next
  case (Cons h cs)
  have d: "distinct (map counter_id cs)" and nin: "counter_id h \<notin> counter_id ` set cs"
    using Cons.prems(2) by auto
  show ?case
  proof (cases "h = c")
    case True
    show ?thesis
    proof (cases "new > old")
      case False
      with Cons.prems True have "main_loop e (Suc i) conn rep cs = Inr (conn', rep')"
        by simp
      from main_loop_other [OF this] nin True False show ?thesis
        by simp
    next
      case gt: True
      with Cons.prems True obtain conn1 where
        io: "int64 old" and
        u: "update_counter conn (clock e i) (counter_id c) new = Inr conn1" and
        l: "main_loop e (Suc i) conn1 (rep @ [(name c, new - old)]) cs = Inr (conn', rep')"
        by (auto split: sum.splits if_splits)
      from u obtain v where
        sv: "stored_count new = Some v" and
        c1: "conn1 = dml (\<lambda>w. insert_sample (clock e i) (counter_id c) v (view conn)) conn"
        by (auto dest: update_counter_Inr)
      from main_loop_other [OF l] nin True
      have "samples_of (view conn') (counter_id c) = samples_of (view conn1) (counter_id c)"
        by simp
      with gt io sv show ?thesis
        by (simp add: c1 samples_of_insert_sample)
    qed
  next
    case False
    with Cons.prems have mem: "c \<in> set cs"
      by simp
    with nin have ne: "counter_id h \<noteq> counter_id c"
      by auto
    from Cons.prems(1) obtain conn1 rep1 where
      l: "main_loop e (Suc i) conn1 rep1 cs = Inr (conn', rep')" and
      s1: "schema (view conn1) = schema (view conn)" and
      s2: "samples_of (view conn1) (counter_id c) = samples_of (view conn) (counter_id c)"
      using ne
      by (auto split: sum.splits if_splits dest!: update_counter_Inr simp: samples_of_insert_sample)
    have "get_counter conn1 (counter_id c) = Inr old"
      using get_counter_cong [OF s1 s2] Cons.prems(4) by simp
    from Cons.IH [OF l d mem this Cons.prems(5)] s2 show ?thesis
      by (cases "new > old") simp_all
  qed
qed

lemma view_get_connection [simp]: "view (get_connection store) = store"
  by (simp add: view_def get_connection_def)

lemma disk_get_connection [simp]: "disk (get_connection store) = store"
  by (simp add: get_connection_def)

lemma disk_commit [simp]: "disk (commit conn) = view conn"
  by (simp add: commit_def)

lemma main_success:
  "outcome (main e store) = Inr report \<Longrightarrow>
     \<exists>conn'. main_loop e 0 (get_connection store) [] (counters store) = Inr (conn', report)
       \<and> persisted (main e store) = view conn'"
  by (auto simp: main_def Let_def get_counters_def split: sum.splits if_splits prod.splits option.splits)

lemma concat_map_skip:
  "f c = [] \<Longrightarrow> concat (map f cs) = concat (map f (filter (\<lambda>x. x \<noteq> c) cs))"
  by (induction cs) auto



text \<open>
  C2.  In a run that completes, over a store whose counter keys are distinct, a registered
  counter whose current value does not exceed its baseline gets no new sample, keeps its
  baseline, and contributes nothing to the report: the report is the one built from the
  other counters.
\<close>

theorem main_skips_non_increase:
  assumes "outcome (main e store) = Inr report"
    and "distinct (map counter_id (counters store))"
    and "c \<in> set (counters store)"
    and "get_counter (get_connection store) (counter_id c) = Inr baseline"
    and "read_counter (files e) (path c) = Inr current"
    and "current \<le> baseline"
  shows "samples_of (persisted (main e store)) (counter_id c) = samples_of store (counter_id c) \<and>
         get_counter (get_connection (persisted (main e store))) (counter_id c) = Inr baseline \<and>
         report = concat (map (entry e (get_connection store))
                    (filter (\<lambda>x. x \<noteq> c) (counters store)))"
proof -
  from main_success [OF assms(1)] obtain conn' where
    l: "main_loop e 0 (get_connection store) [] (counters store) = Inr (conn', report)" and
    p: "persisted (main e store) = view conn'"
    by blast
  from main_loop_samples [OF l assms(2,3,4,5)] assms(6) p
  have s: "samples_of (persisted (main e store)) (counter_id c) = samples_of store (counter_id c)"
    by simp
  have "schema (persisted (main e store)) = schema store"
    using main_loop_schema [OF l] p by simp
  with s have "get_counter (get_connection (persisted (main e store))) (counter_id c) =
      get_counter (get_connection store) (counter_id c)"
    by (intro get_counter_cong) simp_all
  moreover have "entry e (get_connection store) c = []"
    using assms(4,5,6) by (simp add: entry_def)
  then have "report = concat (map (entry e (get_connection store))
      (filter (\<lambda>x. x \<noteq> c) (counters store)))"
    using main_loop_report [OF l assms(2)] concat_map_skip by fastforce
  ultimately show ?thesis
    using s assms(4) by simp
qed

theorem main_skips_non_increase_witness:
  "outcome (main ex_env ex_store) = Inr [(''bank 0'', 5)] \<and>
   distinct (map counter_id (counters ex_store)) \<and>
   ex_counter_b \<in> set (counters ex_store) \<and>
   get_counter (get_connection ex_store) (counter_id ex_counter_b) = Inr 7 \<and>
   read_counter (files ex_env) (path ex_counter_b) = Inr 7 \<and>
   samples_of (persisted (main ex_env ex_store)) (counter_id ex_counter_b) =
     samples_of ex_store (counter_id ex_counter_b) \<and>
   get_counter (get_connection (persisted (main ex_env ex_store))) (counter_id ex_counter_b) =
     Inr 7 \<and>
   [(''bank 0'', 5)] = concat (map (entry ex_env (get_connection ex_store))
      (filter (\<lambda>x. x \<noteq> ex_counter_b) (counters ex_store)))"
proof -
  have h1: "outcome (main ex_env ex_store) = Inr [(''bank 0'', 5)]"
    by code_simp
  have h2: "distinct (map counter_id (counters ex_store))"
    by code_simp
  have h3: "ex_counter_b \<in> set (counters ex_store)"
    by code_simp
  have h4: "get_counter (get_connection ex_store) (counter_id ex_counter_b) = Inr 7"
    by code_simp
  have h5: "read_counter (files ex_env) (path ex_counter_b) = Inr 7"
    by code_simp
  have h6: "(7 :: int) \<le> 7"
    by simp
  from main_skips_non_increase [OF h1 h2 h3 h4 h5 h6] h1 h2 h3 h4 h5 show ?thesis
    by blast
qed

text \<open>
  C4.  A run that ends in an error, whichever it is and wherever it is raised, leaves on
  disk exactly the store it started from.
\<close>

theorem main_error_keeps_store:
  "outcome (main e store) = Inl err \<Longrightarrow> persisted (main e store) = store"
  by (auto simp: main_def Let_def split: sum.splits if_splits prod.splits option.splits
           dest: main_loop_disk)

theorem main_error_keeps_store_witness:
  "outcome (main ex_env_broken ex_store) = Inl SampleReadError \<and>
   persisted (main ex_env_broken ex_store) = ex_store"
proof -
  have h: "outcome (main ex_env_broken ex_store) = Inl SampleReadError"
    by code_simp
  from main_error_keeps_store [OF h] h show ?thesis
    by blast
qed

section \<open>Properties of the sampler\<close>

lemma digit_val_digit_char: "k < 10 \<Longrightarrow> digit_val (digit_char k) = k"
  by (simp add: digit_val_def digit_char_def)

lemma is_digit_digit_char: "k < 10 \<Longrightarrow> is_digit (digit_char k)"
  by (simp add: is_digit_def digit_char_def)

lemma digits_of_digits: "c \<in> set (digits_of n) \<Longrightarrow> is_digit c"
proof (induction n arbitrary: c rule: digits_of.induct)
  case (1 n)
  show ?case
  proof (cases "n < 10")
    case True
    with "1.prems" show ?thesis
      by (simp add: digits_of.simps [of n] is_digit_digit_char)
  next
    case False
    with "1.prems" have "c \<in> set (digits_of (n div 10)) \<or> c = digit_char (n mod 10)"
      by (subst (asm) digits_of.simps) auto
    with False "1.IH" show ?thesis
      by (auto simp: is_digit_digit_char)
  qed
qed

lemma digits_of_nonempty: "digits_of n \<noteq> []"
  by (subst digits_of.simps) simp

lemma decimal_digits_of: "decimal 0 (digits_of n) = n"
proof (induction n rule: digits_of.induct)
  case (1 n)
  show ?case
  proof (cases "n < 10")
    case True
    then show ?thesis
      by (simp add: decimal_def digits_of.simps [of n] digit_val_digit_char)
  next
    case False
    then have "decimal 0 (digits_of n) = 10 * decimal 0 (digits_of (n div 10)) + n mod 10"
      by (subst digits_of.simps) (simp add: decimal_def digit_val_digit_char)
    with False "1.IH" show ?thesis
      by simp
  qed
qed

lemma digits_val_decimal:
  "\<forall>c \<in> set ds. is_digit c \<Longrightarrow> digits_val acc ds = Some (decimal acc ds)"
  by (induction acc ds rule: digits_val.induct) (auto simp: decimal_def)

lemma parse_nat_digits_of: "parse_nat (digits_of n) = Some n"
proof -
  obtain d ds where s: "digits_of n = d # ds"
    using digits_of_nonempty [of n] by (cases "digits_of n") auto
  have all: "\<forall>c \<in> set (d # ds). is_digit c"
    using digits_of_digits [of _ n] s by auto
  then have "parse_nat (d # ds) = Some (decimal (digit_val d) ds)"
    by (simp add: parse_nat_def digits_val_decimal)
  also have "decimal (digit_val d) ds = decimal 0 (d # ds)"
    by (simp add: decimal_def)
  finally show ?thesis
    using decimal_digits_of [of n] s by simp
qed

lemma digit_not_space: "is_digit c \<Longrightarrow> \<not> py_isspace c"
  by (auto simp: is_digit_def py_isspace_def)

lemma strip_padded:
  assumes "\<forall>c \<in> set l. py_isspace c" "\<forall>c \<in> set r. py_isspace c"
    and "d \<noteq> []" "\<not> py_isspace (hd d)" "\<not> py_isspace (last d)"
  shows "strip (l @ d @ r) = d"
proof -
  have "dropWhile py_isspace (l @ d @ r) = d @ r"
    using assms(1,3,4) by (cases d) (simp_all add: dropWhile_append3)
  moreover have "dropWhile py_isspace (rev r @ rev d) = rev d"
    using assms(2,3,5) by (cases "rev d") (auto simp: dropWhile_append3 last_rev hd_rev)
  ultimately show ?thesis
    by (simp add: strip_def)
qed

lemma count_digits_append: "count_digits (a @ b) = count_digits a + count_digits b"
  by (induction a) simp_all

lemma count_digits_nonneg: "0 \<le> count_digits s"
  by (induction s) simp_all

lemma count_digits_spaces: "\<forall>c \<in> set s. py_isspace c \<Longrightarrow> count_digits s = 0"
  by (induction s) (auto dest: digit_not_space)

lemma count_digits_digits: "\<forall>c \<in> set s. is_digit c \<Longrightarrow> count_digits s = int (length s)"
  by (induction s) simp_all

lemma count_digits_str_of_int: "count_digits (str_of_int n) = int (length (digits_of (nat \<bar>n\<bar>)))"
proof -
  have "count_digits (digits_of m) = int (length (digits_of m))" for m
    using digits_of_digits [of _ m] by (intro count_digits_digits) blast
  moreover have "\<not> is_digit (CHR ''-'')"
    by (simp add: is_digit_def)
  ultimately show ?thesis
    by (cases "n < 0") (simp_all add: str_of_int_def abs_if)
qed

lemma length_digits_of_le: "0 < k \<Longrightarrow> m < 10 ^ k \<Longrightarrow> length (digits_of m) \<le> k"
proof (induction k arbitrary: m)
  case 0
  then show ?case
    by simp
next
  case (Suc k)
  show ?case
  proof (cases "m < 10")
    case True
    then show ?thesis
      by (simp add: digits_of.simps [of m])
  next
    case False
    with Suc.prems have "0 < k"
      by (cases k) simp_all
    moreover from Suc.prems have "m div 10 < 10 ^ k"
      by simp
    ultimately have "length (digits_of (m div 10)) \<le> k"
      by (rule Suc.IH)
    with False show ?thesis
      by (simp add: digits_of.simps [of m])
  qed
qed

lemma length_digits_of_gt: "10 ^ k \<le> m \<Longrightarrow> k < length (digits_of m)"
proof (induction k arbitrary: m)
  case 0
  then show ?case
    using digits_of_nonempty [of m] by (cases "digits_of m") simp_all
next
  case (Suc k)
  from Suc.prems have prem: "10 * 10 ^ k \<le> m"
    by simp
  have "(1 :: nat) \<le> 10 ^ k"
    by simp
  with prem have big: "\<not> m < 10"
    by linarith
  from prem have "10 ^ k * 10 \<le> m"
    by (simp add: mult.commute)
  then have "10 ^ k \<le> m div 10"
    by (simp add: less_eq_div_iff_mult_less_eq)
  then have "k < length (digits_of (m div 10))"
    by (rule Suc.IH)
  with big show ?case
    by (simp add: digits_of.simps [of m])
qed

lemma nat_abs_less_power: "\<bar>n\<bar> < 10 ^ k \<Longrightarrow> nat \<bar>n\<bar> < 10 ^ k"
  by (simp add: nat_less_iff)

lemma nat_abs_ge_power: "10 ^ k \<le> \<bar>n\<bar> \<Longrightarrow> 10 ^ k \<le> nat \<bar>n\<bar>"
  by (simp add: le_nat_iff)

lemma py_int_short:
  assumes "\<forall>c \<in> set l. py_isspace c" "\<forall>c \<in> set r. py_isspace c"
    and "\<bar>n\<bar> < 10 ^ k" "0 < k" "int k \<le> 4300"
  shows "py_int (l @ str_of_int n @ r) = Some n"
proof -
  have "nat \<bar>n\<bar> < 10 ^ k"
    using assms(3) by (rule nat_abs_less_power)
  with assms(4) have "length (digits_of (nat \<bar>n\<bar>)) \<le> k"
    by (rule length_digits_of_le)
  with assms(5) have short: "\<not> 4300 < count_digits (l @ str_of_int n @ r)"
    using assms(1,2)
    by (simp add: count_digits_append count_digits_spaces count_digits_str_of_int)
  show ?thesis
  proof (cases "n < 0")
    case True
    let ?ds = "digits_of (nat (- n))"
    have "\<not> py_isspace (last (CHR ''-'' # ?ds))"
      using digits_of_digits [of "last ?ds" "nat (- n)"] digits_of_nonempty [of "nat (- n)"]
      by (simp add: digit_not_space)
    then have "strip (l @ (CHR ''-'' # ?ds) @ r) = CHR ''-'' # ?ds"
      using assms(1,2) by (intro strip_padded) (simp_all add: py_isspace_def)
    moreover have "str_of_int n = CHR ''-'' # ?ds"
      using True by (simp add: str_of_int_def)
    ultimately have "py_int (l @ str_of_int n @ r) =
        map_option (\<lambda>m. - int m) (parse_nat ?ds)"
      using short by (simp add: py_int_def)
    with True show ?thesis
      by (simp add: parse_nat_digits_of)
  next
    case False
    let ?ds = "digits_of (nat n)"
    obtain d ds where s: "?ds = d # ds"
      using digits_of_nonempty [of "nat n"] by (cases ?ds) auto
    have "last ?ds \<in> set ?ds" "d \<in> set ?ds"
      using s last_in_set [of ?ds] by auto
    then have dig: "is_digit d" "is_digit (last ?ds)"
      using digits_of_digits by blast+
    then have "strip (l @ ?ds @ r) = ?ds"
      using assms(1,2) s by (intro strip_padded) (auto simp: digit_not_space)
    moreover have "d \<noteq> CHR ''-''" "d \<noteq> CHR ''+''"
      using dig(1) by (auto simp: is_digit_def)
    moreover have "str_of_int n = ?ds"
      using False by (simp add: str_of_int_def)
    ultimately have "py_int (l @ str_of_int n @ r) = map_option int (parse_nat ?ds)"
      using s short by (simp add: py_int_def)
    with False show ?thesis
      by (simp add: parse_nat_digits_of)
  qed
qed

lemma py_int_long:
  assumes "10 ^ k \<le> \<bar>n\<bar>" "4300 \<le> int k"
  shows "py_int (l @ str_of_int n @ r) = None"
proof -
  have "10 ^ k \<le> nat \<bar>n\<bar>"
    using assms(1) by (rule nat_abs_ge_power)
  then have "k < length (digits_of (nat \<bar>n\<bar>))"
    by (rule length_digits_of_gt)
  with assms(2) have "4300 < count_digits (l @ str_of_int n @ r)"
    using count_digits_nonneg [of l] count_digits_nonneg [of r]
    by (simp add: count_digits_append count_digits_str_of_int)
  then show ?thesis
    by (simp add: py_int_def)
qed

lemma py_int_str_of_int:
  assumes "\<forall>c \<in> set l. py_isspace c" "\<forall>c \<in> set r. py_isspace c" "\<bar>n\<bar> < 10 ^ 4300"
  shows "py_int (l @ str_of_int n @ r) = Some n"
  by (rule py_int_short [OF assms]) simp_all

lemma py_int_too_long:
  assumes "10 ^ 4300 \<le> \<bar>n\<bar>"
  shows "py_int (l @ str_of_int n @ r) = None"
  by (rule py_int_long [OF assms]) simp

lemma digits_val_chars:
  "digits_val acc ds = Some v \<Longrightarrow> c \<in> set ds \<Longrightarrow> is_digit c \<or> c = CHR ''_''"
  by (induction acc ds rule: digits_val.induct) (auto split: if_splits)

lemma parse_nat_chars:
  "parse_nat s = Some v \<Longrightarrow> c \<in> set s \<Longrightarrow> is_digit c \<or> c = CHR ''_''"
  by (cases s) (auto simp: parse_nat_def split: if_splits dest: digits_val_chars)

lemma strip_chars: "c \<in> set s \<Longrightarrow> c \<in> set (strip s) \<or> py_isspace c"
proof -
  assume c: "c \<in> set s"
  let ?t = "dropWhile py_isspace s"
  have "set s = set (takeWhile py_isspace s) \<union> set ?t"
    by (metis set_append takeWhile_dropWhile_id)
  with c have "py_isspace c \<or> c \<in> set ?t"
    by (auto dest: set_takeWhileD)
  moreover have "set (rev ?t) =
      set (takeWhile py_isspace (rev ?t)) \<union> set (dropWhile py_isspace (rev ?t))"
    by (metis set_append takeWhile_dropWhile_id)
  then have "c \<in> set ?t \<Longrightarrow> py_isspace c \<or> c \<in> set (strip s)"
    by (auto simp: strip_def dest: set_takeWhileD)
  ultimately show ?thesis
    by blast
qed

lemma py_int_chars:
  assumes "py_int s = Some n" "c \<in> set s"
  shows "is_digit c \<or> py_isspace c \<or> c \<in> set ''+-_''"
proof -
  from assms(1) obtain c0 cs where st: "strip s = c0 # cs"
    by (cases "strip s") (auto simp: py_int_def split: if_splits)
  from assms(1) st have
    "(c0 \<in> set ''+-'' \<and> (\<exists>v. parse_nat cs = Some v)) \<or> (\<exists>v. parse_nat (c0 # cs) = Some v)"
    by (auto simp: py_int_def split: if_splits)
  then have "\<forall>x \<in> set (c0 # cs). is_digit x \<or> x \<in> set ''+-_''"
    by (auto dest: parse_nat_chars)
  with strip_chars [OF assms(2)] st show ?thesis
    by auto
qed

text \<open>
  C8, as amended.  \<open>read_counter\<close> returns the integer that the whole content of the file
  denotes when that content is a valid integer of at most 4300 digits: the number \<open>n\<close>
  for the decimal text of \<open>n\<close> between white space, and in general whatever \<open>py_int\<close>
  makes of the content.  A missing or unreadable path gives the read error.  Content that
  is not an integer gives the parse error, and so does the decimal text of a number of more
  than 4300 digits.  Both errors leave the function as its result.
\<close>

theorem read_counter_result:
  "(\<forall>n l r. fs p = Text (l @ str_of_int n @ r) \<and> (\<forall>c \<in> set (l @ r). py_isspace c) \<and>
      \<bar>n\<bar> < 10 ^ 4300 \<longrightarrow> read_counter fs p = Inr n) \<and>
   (\<forall>n l r. fs p = Text (l @ str_of_int n @ r) \<and> 10 ^ 4300 \<le> \<bar>n\<bar>
      \<longrightarrow> read_counter fs p = Inl SampleParseError) \<and>
   (\<forall>s c. fs p = Text s \<and> c \<in> set s \<and> \<not> is_digit c \<and> \<not> py_isspace c \<and> c \<notin> set ''+-_''
      \<longrightarrow> read_counter fs p = Inl SampleParseError) \<and>
   (\<forall>s n. fs p = Text s \<and> py_int s = Some n \<longrightarrow> read_counter fs p = Inr n) \<and>
   (fs p = Missing \<or> fs p = Unreadable \<longrightarrow> read_counter fs p = Inl SampleReadError) \<and>
   (\<forall>s. fs p = Text s \<and> py_int s = None \<longrightarrow> read_counter fs p = Inl SampleParseError)"
proof (intro conjI allI impI)
  fix n l r
  assume a: "fs p = Text (l @ str_of_int n @ r) \<and> (\<forall>c \<in> set (l @ r). py_isspace c) \<and>
    \<bar>n\<bar> < 10 ^ 4300"
  then have content: "fs p = Text (l @ str_of_int n @ r)"
    and spaces: "\<forall>c \<in> set (l @ r). py_isspace c" and small: "\<bar>n\<bar> < 10 ^ 4300"
    by blast+
  from spaces have "\<forall>c \<in> set l. py_isspace c" "\<forall>c \<in> set r. py_isspace c"
    by simp_all
  then have "py_int (l @ str_of_int n @ r) = Some n"
    using small by (rule py_int_str_of_int)
  with content show "read_counter fs p = Inr n"
    by (simp add: read_counter_def)
next
  fix n l r
  assume a: "fs p = Text (l @ str_of_int n @ r) \<and> 10 ^ 4300 \<le> \<bar>n\<bar>"
  then have content: "fs p = Text (l @ str_of_int n @ r)" and large: "10 ^ 4300 \<le> \<bar>n\<bar>"
    by blast+
  from large have "py_int (l @ str_of_int n @ r) = None"
    by (rule py_int_too_long)
  with content show "read_counter fs p = Inl SampleParseError"
    by (simp add: read_counter_def)
next
  fix s c
  assume a: "fs p = Text s \<and> c \<in> set s \<and> \<not> is_digit c \<and> \<not> py_isspace c \<and> c \<notin> set ''+-_''"
  then have "py_int s = None"
    using py_int_chars [of s _ c] by (cases "py_int s") auto
  with a show "read_counter fs p = Inl SampleParseError"
    by (simp add: read_counter_def)
next
  fix s n
  assume "fs p = Text s \<and> py_int s = Some n"
  then show "read_counter fs p = Inr n"
    by (simp add: read_counter_def)
next
  assume "fs p = Missing \<or> fs p = Unreadable"
  then show "read_counter fs p = Inl SampleReadError"
    by (auto simp: read_counter_def)
next
  fix s
  assume "fs p = Text s \<and> py_int s = None"
  then show "read_counter fs p = Inl SampleParseError"
    by (simp add: read_counter_def)
qed

theorem read_counter_result_witness:
  "files ex_env ''/sys/a'' = Text ([] @ str_of_int 15 @ []) \<and>
   \<bar>15 :: int\<bar> < 10 ^ 4300 \<and>
   read_counter (files ex_env) ''/sys/a'' = Inr 15 \<and>
   (10 :: int) ^ 4300 \<le> \<bar>10 ^ 4300\<bar> \<and>
   read_counter (\<lambda>p. Text ([] @ str_of_int (10 ^ 4300) @ [])) ''/sys/a'' =
     Inl SampleParseError \<and>
   files ex_env ''/sys/none'' = Missing \<and>
   read_counter (files ex_env) ''/sys/none'' = Inl SampleReadError \<and>
   CHR ''a'' \<in> set ''12a'' \<and>
   read_counter (\<lambda>p. Text ''12a'') ''/sys/a'' = Inl SampleParseError"
proof -
  have a: "files ex_env ''/sys/a'' = Text ([] @ str_of_int 15 @ [])"
    by code_simp
  have a': "\<bar>15 :: int\<bar> < 10 ^ 4300"
  proof -
    have "\<bar>15 :: int\<bar> < 10 ^ 2"
      by simp
    moreover have "(10 :: int) ^ 2 \<le> 10 ^ 4300"
      by (rule power_increasing) simp_all
    ultimately show ?thesis
      by (rule less_le_trans)
  qed
  have b: "files ex_env ''/sys/none'' = Missing"
    by code_simp
  have c: "CHR ''a'' \<in> set ''12a'' \<and> \<not> is_digit (CHR ''a'') \<and> \<not> py_isspace (CHR ''a'') \<and>
      CHR ''a'' \<notin> set ''+-_''"
    by (simp add: is_digit_def py_isspace_def)
  have d: "(10 :: int) ^ 4300 \<le> \<bar>10 ^ 4300\<bar>"
    by (rule abs_ge_self)
  from read_counter_result [of "files ex_env" "''/sys/a''"] a a'
  have "read_counter (files ex_env) ''/sys/a'' = Inr 15"
    by (metis empty_iff empty_set append_Nil)
  moreover from read_counter_result
    [of "\<lambda>p. Text ([] @ str_of_int (10 ^ 4300) @ [])" "''/sys/a''"] d
  have "read_counter (\<lambda>p. Text ([] @ str_of_int (10 ^ 4300) @ [])) ''/sys/a'' =
      Inl SampleParseError"
    by blast
  moreover from read_counter_result [of "files ex_env" "''/sys/none''"] b
  have "read_counter (files ex_env) ''/sys/none'' = Inl SampleReadError"
    by blast
  moreover from read_counter_result [of "\<lambda>p. Text ''12a''" "''/sys/a''"] c
  have "read_counter (\<lambda>p. Text ''12a'') ''/sys/a'' = Inl SampleParseError"
    by blast
  ultimately show ?thesis
    using a a' b c d by blast
qed

text \<open>
  C8, as stated, fails: the decimal text of \<open>10 ^ 4300\<close>, a one followed by 4300 zeros,
  is a valid integer, and \<open>read_counter\<close> answers it with the parse error.
\<close>

theorem read_counter_long_text:
  "read_counter (\<lambda>p. Text (str_of_int (10 ^ 4300))) ''/sys/a'' = Inl SampleParseError"
proof -
  have "py_int ([] @ str_of_int (10 ^ 4300) @ []) = None"
    by (rule py_int_too_long) (rule abs_ge_self)
  then have "py_int (str_of_int (10 ^ 4300)) = None"
    by (simp only: append_Nil append_Nil2)
  then show ?thesis
    by (simp only: read_counter_def file_state.case option.case)
qed

section \<open>Properties of schema creation\<close>

lemma take_full_schema:
  "take k full_schema = [] \<or> take k full_schema = [Table ''counters''] \<or>
   take k full_schema = [Table ''counters'', Index ''counters_path'' ''counters'' ''path'' True] \<or>
   take k full_schema = [Table ''counters'', Index ''counters_path'' ''counters'' ''path'' True,
      Table ''counter_counts''] \<or>
   take k full_schema = full_schema"
proof -
  consider "k = 0" | "k = 1" | "k = 2" | "k = 3" | "k \<ge> 4"
    by arith
  then show ?thesis
    by cases (simp_all add: full_schema_def)
qed

lemma create_schema_prefix:
  assumes "schema (view conn) = take k full_schema"
    and "distinct (map path (counters (view conn)))"
  shows "fst (create_schema conn) = None \<and>
         schema (view (snd (create_schema conn))) = full_schema \<and>
         (has_table (view conn) ''counters'' \<longrightarrow>
            counters (view (snd (create_schema conn))) = counters (view conn)) \<and>
         (has_table (view conn) ''counter_counts'' \<longrightarrow>
            counter_counts (view (snd (create_schema conn))) = counter_counts (view conn)) \<and>
         (schema (view conn) = full_schema \<longrightarrow> snd (create_schema conn) = conn) \<and>
         (\<not> has_table (view conn) ''counters'' \<longrightarrow>
            counters (view (snd (create_schema conn))) = []) \<and>
         (txn (snd (create_schema conn)) = None \<longleftrightarrow> txn conn = None)"
proof (cases "txn conn")
  case None
  with take_full_schema [of k] assms show ?thesis
    by (elim disjE)
       (simp_all add: create_schema_def SCHEMA_SQL_def execute_ddl_def has_table_def
          has_index_def new_table_def duplicates_def full_schema_def view_def)
next
  case (Some w)
  with take_full_schema [of k] assms show ?thesis
    by (elim disjE)
       (simp_all add: create_schema_def SCHEMA_SQL_def execute_ddl_def has_table_def
          has_index_def new_table_def duplicates_def full_schema_def view_def)
qed

lemma create_schema_full:
  assumes "schema (view conn) = full_schema"
  shows "create_schema conn = (None, conn)"
proof (cases "txn conn")
  case None
  with assms show ?thesis
    by (simp add: create_schema_def SCHEMA_SQL_def execute_ddl_def has_table_def
          has_index_def full_schema_def view_def)
next
  case (Some w)
  with assms show ?thesis
    by (simp add: create_schema_def SCHEMA_SQL_def execute_ddl_def has_table_def
          has_index_def full_schema_def view_def)
qed

lemma create_schema_times_full:
  "schema (view conn) = full_schema \<Longrightarrow> create_schema_times n conn = (None, conn)"
  by (induction n) (simp_all add: create_schema_full)

text \<open>
  C9.  On a store that holds any initial part of the program's schema (none of it when the
  store is new, all of it once a call has completed), any number of calls of
  \<open>create_schema\<close>, at least one, raises no error and leaves exactly the four objects of
  the schema: the two tables, the unique index on \<^verbatim>\<open>path\<close> and the index on
  \<^verbatim>\<open>access_time\<close>.  The rows of a table that existed are unchanged, and a further call
  changes nothing at all.
\<close>

theorem create_schema_idempotent:
  assumes "schema (view conn) = take k full_schema"
    and "distinct (map path (counters (view conn)))"
  shows "\<exists>conn'. create_schema_times (Suc n) conn = (None, conn') \<and>
           schema (view conn') = full_schema \<and>
           (has_table (view conn) ''counters'' \<longrightarrow>
              counters (view conn') = counters (view conn)) \<and>
           (has_table (view conn) ''counter_counts'' \<longrightarrow>
              counter_counts (view conn') = counter_counts (view conn)) \<and>
           create_schema conn' = (None, conn')"
proof -
  obtain conn1 where c: "create_schema conn = (None, conn1)"
    using create_schema_prefix [OF assms] by (cases "create_schema conn") auto
  with create_schema_prefix [OF assms] have
    s: "schema (view conn1) = full_schema" and
    d1: "has_table (view conn) ''counters'' \<longrightarrow> counters (view conn1) = counters (view conn)" and
    d2: "has_table (view conn) ''counter_counts'' \<longrightarrow>
           counter_counts (view conn1) = counter_counts (view conn)"
    by simp_all
  have "create_schema_times (Suc n) conn = (None, conn1)"
    using c create_schema_times_full [OF s] by simp
  with s d1 d2 create_schema_full [OF s] show ?thesis
    by blast
qed

theorem create_schema_idempotent_witness:
  "schema (view (get_connection empty_db)) = take 0 full_schema \<and>
   distinct (map path (counters (view (get_connection empty_db)))) \<and>
   create_schema_times (Suc 2) (get_connection empty_db) =
     (None, get_connection \<lparr>schema = full_schema, counters = [], counter_counts = []\<rparr>) \<and>
   create_schema_times (Suc 2) (get_connection ex_store) = (None, get_connection ex_store) \<and>
   (\<exists>conn'. create_schema_times (Suc 2) (get_connection empty_db) = (None, conn') \<and>
      schema (view conn') = full_schema \<and> create_schema conn' = (None, conn'))"
proof -
  have h1: "schema (view (get_connection empty_db)) = take 0 full_schema"
    by code_simp
  have h2: "distinct (map path (counters (view (get_connection empty_db))))"
    by code_simp
  have e1: "create_schema_times (Suc 2) (get_connection empty_db) =
      (None, get_connection \<lparr>schema = full_schema, counters = [], counter_counts = []\<rparr>)"
    by code_simp
  have e2: "create_schema_times (Suc 2) (get_connection ex_store) =
      (None, get_connection ex_store)"
    by code_simp
  from create_schema_idempotent [OF h1 h2, of 2] h1 h2 e1 e2 show ?thesis
    by blast
qed

section \<open>Properties of the credentials file\<close>

lemma unhex_hex_char: "k < 16 \<Longrightarrow> unhex (hex_char k) = Some k"
  by (auto simp: unhex_def hex_char_def Let_def)

lemma unhex4_byte:
  "unhex4 (CHR ''0'') (CHR ''0'') (hex_char (of_char c div 16)) (hex_char (of_char c mod 16)) =
     Some (of_char c)"
proof -
  have "(of_char c :: nat) < 256"
    by (rule nat_of_char_less_256)
  then have "(of_char c :: nat) div 16 < 16"
    by arith
  then show ?thesis
    by (simp add: unhex4_def unhex_hex_char) (simp add: unhex_def)
qed

lemma scanstring_escape_char: "scanstring (escape_char c @ t) = consR c (scanstring t)"
proof -
  consider "c = CHR 0x22" | "c = CHR 0x5C" | "c = CHR 0x0A" | "c = CHR 0x0D" | "c = CHR 0x09"
    | "c = CHR 0x08" | "c = CHR 0x0C"
    | "c \<notin> {CHR 0x22, CHR 0x5C, CHR 0x0A, CHR 0x0D, CHR 0x09, CHR 0x08, CHR 0x0C}"
      "32 \<le> (of_char c :: nat) \<and> (of_char c :: nat) \<le> 126"
    | "c \<notin> {CHR 0x22, CHR 0x5C, CHR 0x0A, CHR 0x0D, CHR 0x09, CHR 0x08, CHR 0x0C}"
      "\<not> (32 \<le> (of_char c :: nat) \<and> (of_char c :: nat) \<le> 126)"
    by blast
  then show ?thesis
  proof cases
    case 8
    then show ?thesis
      by (simp add: escape_char_def)
  next
    case 9
    then show ?thesis
      by (simp add: escape_char_def unhex4_byte)
  qed (simp_all add: escape_char_def unescape_def)
qed

lemma scanstring_encoded:
  "scanstring (concat (map escape_char s) @ CHR 0x22 # t) = Inr (s, t)"
  by (induction s) (simp_all add: scanstring_escape_char consR_def)


lemma digit_char_nonzero: "0 < k \<Longrightarrow> k < 10 \<Longrightarrow> digit_char k \<noteq> CHR ''0''"
proof
  assume "0 < k" "k < 10" "digit_char k = CHR ''0''"
  then have "digit_val (digit_char k) = digit_val (CHR ''0'')"
    by simp
  with \<open>0 < k\<close> \<open>k < 10\<close> show False
    by (simp add: digit_val_digit_char) (simp add: digit_val_def)
qed

lemma digits_of_hd: "0 < m \<Longrightarrow> hd (digits_of m) \<noteq> CHR ''0''"
proof (induction m rule: digits_of.induct)
  case (1 n)
  show ?case
  proof (cases "n < 10")
    case True
    with "1.prems" show ?thesis
      by (simp add: digits_of.simps [of n] digit_char_nonzero)
  next
    case False
    then have "0 < n div 10"
      by simp
    with False "1.IH" have "hd (digits_of (n div 10)) \<noteq> CHR ''0''"
      by simp
    with False show ?thesis
      by (simp add: digits_of.simps [of n] digits_of_nonempty)
  qed
qed

lemma digit_char_0: "digit_char 0 = CHR ''0''"
  by (simp add: digit_char_def char_of_eq_iff)

lemma join_Cons: "join sep (x # xs) = x @ (if xs = [] then [] else sep @ join sep xs)"
  by (cases xs) simp_all

lemma scan_digits_decimal:
  "\<forall>c \<in> set ds. is_digit c \<Longrightarrow> t = [] \<or> \<not> is_digit (hd t) \<Longrightarrow>
     scan_digits acc (ds @ t) = (decimal acc ds, t)"
proof (induction ds arbitrary: acc)
  case Nil
  then show ?case
    by (cases t) (simp_all add: decimal_def)
next
  case (Cons d ds)
  then show ?case
    by (simp add: decimal_def)
qed

lemma scan_nat_digits_of:
  assumes "t = [] \<or> \<not> is_digit (hd t)"
  shows "scan_nat (digits_of m @ t) = Inr (m, t)"
proof (cases "m = 0")
  case True
  then show ?thesis
    by (simp add: digits_of.simps [of 0] scan_nat_def digit_char_0)
next
  case False
  obtain d ds where s: "digits_of m = d # ds"
    using digits_of_nonempty [of m] by (cases "digits_of m") auto
  have all: "\<forall>c \<in> set (d # ds). is_digit c"
    using digits_of_digits [of _ m] s by auto
  have nz: "d \<noteq> CHR ''0''"
    using digits_of_hd [of m] False s by simp
  have "decimal (digit_val d) ds = decimal 0 (d # ds)"
    by (simp add: decimal_def)
  then have "decimal (digit_val d) ds = m"
    using decimal_digits_of [of m] s by simp
  with all nz assms show ?thesis
    by (simp add: s scan_nat_def scan_digits_decimal)
qed

lemma closes_facts: "closes t \<Longrightarrow> (t = [] \<or> \<not> is_digit (hd t)) \<and> \<not> not_integer t"
  by (cases t) (auto simp: closes_def is_digit_def not_integer_def)

lemma scan_value_encoded:
  assumes "closes t"
  shows "scan_value (encode_value v @ t) = Inr (v, t)"
proof (cases v)
  case (JStr s)
  then show ?thesis
    using scanstring_encoded [of s t]
    by (simp add: scan_value_def encode_basestring_ascii_def)
next
  case (JInt n)
  show ?thesis
  proof (cases "n < 0")
    case True
    with JInt assms closes_facts [OF assms] show ?thesis
      by (simp add: scan_value_def str_of_int_def scan_nat_digits_of)
  next
    case False
    obtain d ds where s: "digits_of (nat n) = d # ds"
      using digits_of_nonempty [of "nat n"] by (cases "digits_of (nat n)") auto
    have dig: "is_digit d"
      using digits_of_digits [of d "nat n"] s by simp
    then have ne: "d \<noteq> CHR 0x22" "d \<noteq> CHR ''-''"
      by (auto simp: is_digit_def)
    have "scan_nat ((d # ds) @ t) = Inr (nat n, t)"
      using scan_nat_digits_of [of t "nat n"] closes_facts [OF assms] s by simp
    with False JInt dig ne closes_facts [OF assms] show ?thesis
      by (simp add: scan_value_def str_of_int_def s)
  qed
qed

lemma encode_value_starts: "\<exists>c cs. encode_value v = c # cs \<and> \<not> json_ws c"
proof (cases v)
  case (JStr s)
  then show ?thesis
    by (simp add: encode_basestring_ascii_def json_ws_def)
next
  case (JInt n)
  have a: "\<exists>c cs. digits_of m = c # cs \<and> \<not> json_ws c" for m
  proof -
    obtain d ds where s: "digits_of m = d # ds"
      using digits_of_nonempty [of m] by (cases "digits_of m") auto
    then have "is_digit d"
      using digits_of_digits [of d m] by simp
    then have "\<not> json_ws d"
      by (auto simp: is_digit_def json_ws_def)
    with s show ?thesis by simp
  qed
  show ?thesis
    using JInt a [of "nat n"] by (auto simp: str_of_int_def json_ws_def)
qed

lemma skip_ws_value: "dropWhile json_ws (encode_value v @ t) = encode_value v @ t"
  using encode_value_starts [of v] by auto

lemma scan_items_encoded:
  "d \<noteq> [] \<Longrightarrow> length d \<le> n \<Longrightarrow>
     scan_items n (join '', '' (map encode_item d) @ CHR ''}'' # t) = Inr (d, t)"
proof (induction d arbitrary: n)
  case Nil
  then show ?case by simp
next
  case (Cons kv d)
  obtain k v where kv: "kv = (k, v)"
    by (cases kv)
  from Cons.prems obtain n' where n: "n = Suc n'" "length d \<le> n'"
    by (cases n) auto
  show ?case
  proof (cases d)
    case Nil
    have "scan_value (encode_value v @ CHR ''}'' # t) = Inr (v, CHR ''}'' # t)"
      by (rule scan_value_encoded) (simp add: closes_def)
    then show ?thesis
      using scanstring_encoded [of k]
      by (simp add: Nil kv n encode_item_def encode_basestring_ascii_def json_ws_def
            skip_ws_value [simplified json_ws_def])
  next
    case (Cons kv' d')
    let ?more = "join '', '' (map encode_item d) @ CHR ''}'' # t"
    have ih: "scan_items n' ?more = Inr (d, t)"
      using Cons.IH [of n'] n Cons by simp
    have q: "\<exists>r. ?more = CHR 0x22 # r"
      by (cases kv') (simp add: Cons join_Cons encode_item_def encode_basestring_ascii_def)
    then obtain r where r: "?more = CHR 0x22 # r"
      by blast
    have sv: "scan_value (encode_value v @ CHR '','' # CHR '' '' # ?more) =
        Inr (v, CHR '','' # CHR '' '' # ?more)"
      by (rule scan_value_encoded) (simp add: closes_def)
    have j: "join '', '' (map encode_item (kv # d)) @ CHR ''}'' # t =
        encode_item kv @ CHR '','' # CHR '' '' # ?more"
      by (simp add: Cons)
    have "scan_items (Suc n') (encode_item kv @ CHR '','' # CHR '' '' # ?more) =
        Inr (kv # d, t)"
      using scanstring_encoded [of k] sv ih
      by (simp add: kv encode_item_def encode_basestring_ascii_def json_ws_def
            skip_ws_value [simplified json_ws_def] r [symmetric])
         (simp add: r json_ws_def ih [simplified r])
    with j n show ?thesis
      by simp
  qed
qed


lemma encode_item_nonempty: "encode_item kv \<noteq> []"
  by (simp add: encode_item_def encode_basestring_ascii_def)

lemma length_join: "length d \<le> length (join sep (map encode_item d))"
proof (induction d)
  case Nil
  then show ?case by simp
next
  case (Cons kv d)
  have "1 \<le> length (encode_item kv)"
    using encode_item_nonempty [of kv] by (cases "encode_item kv") simp_all
  with Cons show ?case
    by (simp add: join_Cons)
qed

lemma json_round_trip: "json_loads (json_dumps d) = Inr d"
proof (cases d)
  case Nil
  then show ?thesis
    by (simp add: json_loads_def json_dumps_def json_ws_def)
next
  case (Cons kv d')
  let ?items = "join '', '' (map encode_item d)"
  obtain r where r: "?items = CHR 0x22 # r"
    by (cases kv) (simp add: Cons join_Cons encode_item_def encode_basestring_ascii_def)
  have "length d \<le> length (json_dumps d)"
    using length_join [of d "'', ''"] by (simp add: json_dumps_def)
  then have "scan_items (length (json_dumps d)) (?items @ CHR ''}'' # []) = Inr (d, [])"
    using Cons by (intro scan_items_encoded) simp_all
  then have "scan_items (length (json_dumps d)) (CHR 0x22 # r @ ''}'') = Inr (d, [])"
    by (simp add: r)
  moreover have "json_dumps d = CHR ''{'' # CHR 0x22 # r @ ''}''"
    by (simp add: json_dumps_def r)
  ultimately show ?thesis
    by (simp add: json_loads_def json_ws_def)
qed

lemma load_written:
  "load_credentials (write_credentials_file smtp_server smtp_port sender recipient password) =
     Inr [(''smtp_server'', JStr smtp_server), (''smtp_port'', JInt smtp_port),
          (''sender'', JStr sender), (''recipient'', JStr recipient),
          (''password'', JStr password)]"
  by (simp add: load_credentials_def write_credentials_file_def json_round_trip)

text \<open>
  C7.  Reading back the file that \<open>write_credentials_file\<close> has written gives a dictionary
  in which each of the five keys holds exactly the value that was written.
\<close>

theorem credentials_round_trip:
  "\<exists>d. load_credentials (write_credentials_file smtp_server smtp_port sender recipient password)
          = Inr d \<and>
        get_str d ''smtp_server'' = Inr smtp_server \<and>
        get_int d ''smtp_port'' = Inr smtp_port \<and>
        get_str d ''sender'' = Inr sender \<and>
        get_str d ''recipient'' = Inr recipient \<and>
        get_str d ''password'' = Inr password"
  by (simp add: load_written get_str_def get_int_def getitem_def)

theorem credentials_round_trip_witness:
  "\<exists>d. load_credentials (write_credentials_file ''mail.example.org'' 587 ''me'' ''you'' ''pw'')
          = Inr d \<and>
        get_str d ''smtp_server'' = Inr ''mail.example.org'' \<and>
        get_int d ''smtp_port'' = Inr 587 \<and>
        get_str d ''sender'' = Inr ''me'' \<and>
        get_str d ''recipient'' = Inr ''you'' \<and>
        get_str d ''password'' = Inr ''pw''"
  by (rule credentials_round_trip)

section \<open>Properties of report delivery\<close>

lemma message_text_lines:
  "message_text report = join [newline] (map (\<lambda>(name, delta). name @ '': '' @ str_of_int delta) report)"
proof -
  have "format_line = (\<lambda>(name, delta). name @ '': '' @ str_of_int delta)"
    by (auto simp: format_line_def fun_eq_iff)
  then show ?thesis
    by (simp add: message_text_def)
qed

lemma send_mail_at_most_one:
  "snd (send_mail cf srv report) = [] \<or>
   (\<exists>a b. snd (send_mail cf srv report) = [report_message a b report])"
  by (auto simp: send_mail_def Let_def report_message_def message_text_lines split: sum.splits)

lemma send_mail_established:
  assumes "cf = write_credentials_file h p a b c"
    and "connects srv h p" "starttls_ok srv" "login_ok srv a c"
  shows "snd (send_mail cf srv report) = [report_message a b report]"
  using assms
  by (simp add: send_mail_def load_written get_str_def get_int_def getitem_def Let_def
        report_message_def message_text_lines)

text \<open>
  C6.  In a run whose loop over the counters completes with a report, \<open>send_mail\<close> is
  called, once and with that report, exactly when the report is not empty.  A call hands
  at most one message to the mail server, and every message handed over has the subject
  \<^verbatim>\<open>Linux healthcheck report\<close> and a single text part with one line \<^verbatim>\<open>name: delta\<close> for
  each entry of the report, in order, separated by newlines.  Exactly one message is
  handed over when the credentials file is one that \<open>write_credentials_file\<close> wrote and
  the server opens the connection, upgrades it and accepts the login.
\<close>

theorem report_delivery:
  assumes "get_counters (get_connection store) = Inr cs"
    and "main_loop e 0 (get_connection store) [] cs = Inr (conn', report)"
  shows "deliveries (main e store) = (if report = [] then [] else [report]) \<and>
         (submitted (main e store) = [] \<or>
          (\<exists>a b. report \<noteq> [] \<and> submitted (main e store) = [report_message a b report])) \<and>
         (report \<noteq> [] \<and> credentials e = write_credentials_file h p a b c \<and>
          connects (server e) h p \<and> starttls_ok (server e) \<and> login_ok (server e) a c \<longrightarrow>
            submitted (main e store) = [report_message a b report])"
proof (cases "report = []")
  case True
  with assms show ?thesis
    by (simp add: main_def)
next
  case False
  obtain err sent where s: "send_mail (credentials e) (server e) report = (err, sent)"
    by (cases "send_mail (credentials e) (server e) report")
  have d: "deliveries (main e store) = [report]" and m: "submitted (main e store) = sent"
    using assms False s by (cases err; simp add: main_def)+
  have "sent = [] \<or> (\<exists>a b. sent = [report_message a b report])"
    using send_mail_at_most_one [of "credentials e" "server e" report] s by simp
  moreover have "sent = [report_message a b report]"
    if "credentials e = write_credentials_file h p a b c" "connects (server e) h p"
      "starttls_ok (server e)" "login_ok (server e) a c"
    using send_mail_established [OF that, of report] s by simp
  ultimately show ?thesis
    using False d m by auto
qed

theorem report_delivery_witness:
  "get_counters (get_connection ex_store) = Inr (counters ex_store) \<and>
   (\<exists>conn'. main_loop ex_env 0 (get_connection ex_store) [] (counters ex_store) =
      Inr (conn', [(''bank 0'', 5)])) \<and>
   credentials ex_env = write_credentials_file ''mail'' 587 ''me'' ''you'' ''pw'' \<and>
   deliveries (main ex_env ex_store) = [[(''bank 0'', 5)]] \<and>
   submitted (main ex_env ex_store) = [report_message ''me'' ''you'' [(''bank 0'', 5)]] \<and>
   msg_parts (report_message ''me'' ''you'' [(''bank 0'', 5)]) = [''bank 0: 5'']"
proof -
  have h1: "get_counters (get_connection ex_store) = Inr (counters ex_store)"
    by code_simp
  have "case main_loop ex_env 0 (get_connection ex_store) [] (counters ex_store) of
          Inl err \<Rightarrow> False | Inr (conn', report) \<Rightarrow> report = [(''bank 0'', 5)]"
    by code_simp
  then obtain conn' where h2: "main_loop ex_env 0 (get_connection ex_store) []
      (counters ex_store) = Inr (conn', [(''bank 0'', 5)])"
    by (auto split: sum.splits)
  have c: "credentials ex_env = write_credentials_file ''mail'' 587 ''me'' ''you'' ''pw''"
    by (simp add: ex_env_def)
  have s: "connects (server ex_env) ''mail'' 587 \<and> starttls_ok (server ex_env) \<and>
      login_ok (server ex_env) ''me'' ''pw''"
    by (simp add: ex_env_def ex_server_def)
  have p: "msg_parts (report_message ''me'' ''you'' [(''bank 0'', 5)]) = [''bank 0: 5'']"
    by code_simp
  from report_delivery [OF h1 h2, of "''mail''" 587 "''me''" "''you''" "''pw''"] c s
  have "deliveries (main ex_env ex_store) = [[(''bank 0'', 5)]] \<and>
      submitted (main ex_env ex_store) = [report_message ''me'' ''you'' [(''bank 0'', 5)]]"
    by simp
  with h1 h2 c p show ?thesis
    by blast
qed

section \<open>A run on a value beyond the 64-bit range\<close>


section \<open>Properties of registration\<close>

lemma consT_Inr: "consT t r = Inr ts \<longleftrightarrow> (\<exists>ts'. r = Inr ts' \<and> ts = t # ts')"
  by (cases r) (auto simp: consT_def)

lemma tokenize_ADD_COUNTER_SQL:
  "tokenize (ADD_COUNTER_SQL p n) =
     (case sql_string (p @ squote # '', '' @ squote # n @ squote # '');'' @ [newline]) of
        None \<Rightarrow> Inl StorageError
      | Some (v, rest) \<Rightarrow>
          (case tokenize rest of
             Inl e \<Rightarrow> Inl e
           | Inr ts \<Rightarrow> Inr (INSERT_INTO @ TSym ''('' # TString v # ts)))"
  by (simp add: ADD_COUNTER_SQL_def tokenize.simps sql_space_def is_alpha_def id_char_def
        is_digit_def lower_def consT_def INSERT_INTO_def squote_def newline_def
        split: option.splits sum.splits)


lemma sql_quote_simps [simp]:
  "sql_quote [] = []"
  "sql_quote (c # v) = (if c = squote then squote # squote # sql_quote v else c # sql_quote v)"
  by (simp_all add: sql_quote_def)

lemma sql_string_text:
  "sql_string s = Some (v, r) \<Longrightarrow> s = sql_quote v @ squote # r \<and> (r = [] \<or> hd r \<noteq> squote)"
proof (induction s arbitrary: v r rule: sql_string.induct)
  case 1
  then show ?case by simp
next
  case (2 c)
  then show ?case
    by (simp split: if_splits)
next
  case (3 c d cs)
  show ?case
  proof (cases "c = squote")
    case True
    show ?thesis
    proof (cases "d = squote")
      case d: True
      with True "3.prems" obtain v' where "sql_string cs = Some (v', r)" "v = squote # v'"
        by (auto simp: consS_def split: option.splits)
      with "3.IH"(1) [OF True d] True d show ?thesis
        by simp
    next
      case False
      with True "3.prems" show ?thesis
        by auto
    qed
  next
    case False
    with "3.prems" obtain v' where "sql_string (d # cs) = Some (v', r)" "v = c # v'"
      by (auto simp: consS_def split: option.splits)
    with "3.IH"(2) [OF False] False show ?thesis
      by simp
  qed
qed

lemma sql_string_plain:
  "squote \<notin> set p \<Longrightarrow> t = [] \<or> hd t \<noteq> squote \<Longrightarrow> sql_string (p @ squote # t) = Some (p, t)"
proof (induction p)
  case Nil
  then show ?case
    by (cases t) simp_all
next
  case (Cons c p)
  then have "sql_string (p @ squote # t) = Some (p, t)" "c \<noteq> squote"
    by auto
  then show ?case
    by (cases "p @ squote # t") (simp_all add: consS_def)
qed

lemma quoted_text_shifted:
  "set q \<subseteq> {squote} \<Longrightarrow> q \<noteq> [] \<or> squote \<in> set p \<Longrightarrow>
   q @ sql_quote p @ squote # r = p @ squote # t \<Longrightarrow> t \<noteq> [] \<and> hd t = squote"
proof (induction p arbitrary: q)
  case Nil
  then obtain q' where q: "q = squote # q'"
    by (cases q) auto
  with Nil show ?case
    by (cases q') auto
next
  case (Cons c p)
  show ?case
  proof (cases q)
    case Nil
    show ?thesis
    proof (cases "c = squote")
      case True
      with Nil Cons.prems have "[squote] @ sql_quote p @ squote # r = p @ squote # t"
        by simp
      with Cons.IH [of "[squote]"] show ?thesis
        by simp
    next
      case False
      with Nil Cons.prems have "[] @ sql_quote p @ squote # r = p @ squote # t" "squote \<in> set p"
        by auto
      with Cons.IH [of "[]"] show ?thesis
        by simp
    qed
  next
    case (Cons x q')
    with Cons.prems have x: "x = squote" "c = squote" and q': "set q' \<subseteq> {squote}"
      by auto
    with Cons Cons.prems have
      "(q' @ [squote, squote]) @ sql_quote p @ squote # r = p @ squote # t"
      by simp
    with Cons.IH [of "q' @ [squote, squote]"] q' show ?thesis
      by simp
  qed
qed

lemma sql_string_quoted:
  assumes "squote \<in> set p" "t = [] \<or> hd t \<noteq> squote"
  shows "sql_string (p @ squote # t) \<noteq> Some (p, r)"
proof
  assume "sql_string (p @ squote # t) = Some (p, r)"
  then have "[] @ sql_quote p @ squote # r = p @ squote # t"
    using sql_string_text by fastforce
  with quoted_text_shifted [of "[]" p r t] assms show False
    by simp
qed


lemma tokenize_second_argument:
  "tokenize (CHR '','' # CHR '' '' # squote # x) =
     (case sql_string x of
        None \<Rightarrow> Inl StorageError
      | Some (v, r) \<Rightarrow>
          (case tokenize r of Inl e \<Rightarrow> Inl e | Inr ts \<Rightarrow> Inr (TSym '','' # TString v # ts)))"
  by (simp add: tokenize.simps sql_space_def consT_def squote_def
        split: option.splits sum.splits)

lemma tokenize_closing: "tokenize [CHR '')'', CHR '';'', newline] = Inr [TSym '')'', TSym '';'']"
  by (simp add: tokenize.simps sql_space_def consT_def squote_def newline_def)

lemma tokenize_plain:
  assumes "squote \<notin> set p" "squote \<notin> set n"
  shows "tokenize (ADD_COUNTER_SQL p n) =
     Inr (INSERT_INTO @ [TSym ''('', TString p, TSym '','', TString n, TSym '')'', TSym '';''])"
proof -
  have 1: "sql_string (p @ squote # '', '' @ squote # n @ squote # '');'' @ [newline]) =
      Some (p, '', '' @ squote # n @ squote # '');'' @ [newline])"
    using assms(1) by (intro sql_string_plain) (simp_all add: squote_def)
  have 2: "sql_string (n @ squote # '');'' @ [newline]) = Some (n, '');'' @ [newline])"
    using assms(2) by (intro sql_string_plain) (simp_all add: squote_def)
  show ?thesis
    using 1 2
    by (simp add: tokenize_ADD_COUNTER_SQL tokenize_second_argument tokenize_closing)
qed

text \<open>
  C10, as amended.  When the path or the name contains a single quote, the statement text
  that \<open>add_counter\<close> builds is never read as the tokens of the intended statement, the
  insertion of the two arguments as string literals.
\<close>

theorem quoted_argument_changes_statement:
  assumes "squote \<in> set p \<union> set n"
  shows "tokenize (ADD_COUNTER_SQL p n) \<noteq>
     Inr (INSERT_INTO @ [TSym ''('', TString p, TSym '','', TString n, TSym '')'', TSym '';''])"
proof
  let ?t1 = "'', '' @ squote # n @ squote # '');'' @ [newline]"
  let ?t2 = "'');'' @ [newline]"
  assume eq: "tokenize (ADD_COUNTER_SQL p n) =
     Inr (INSERT_INTO @ [TSym ''('', TString p, TSym '','', TString n, TSym '')'', TSym '';''])"
  then obtain rest where
    1: "sql_string (p @ squote # ?t1) = Some (p, rest)" and
    2: "tokenize rest = Inr [TSym '','', TString n, TSym '')'', TSym '';'']"
    by (auto simp: tokenize_ADD_COUNTER_SQL split: option.splits sum.splits)
  have p: "squote \<notin> set p"
    using 1 sql_string_quoted [of p ?t1 rest] by (auto simp: squote_def)
  then have "rest = ?t1"
    using 1 sql_string_plain [of p ?t1] by (simp add: squote_def)
  with 2 have "tokenize (CHR '','' # CHR '' '' # squote # n @ squote # ?t2) =
      Inr [TSym '','', TString n, TSym '')'', TSym '';'']"
    by simp
  then obtain r where "sql_string (n @ squote # ?t2) = Some (n, r)"
    by (auto simp: tokenize_second_argument split: option.splits sum.splits)
  then have "squote \<notin> set n"
    using sql_string_quoted [of n ?t2 r] by (auto simp: squote_def)
  with p assms show False
    by simp
qed


theorem quoted_argument_changes_statement_witness:
  "squote \<in> set (''it'' @ [squote] @ ''s'') \<union> set ''a'' \<and>
   tokenize (ADD_COUNTER_SQL (''it'' @ [squote] @ ''s'') ''a'') \<noteq>
     Inr (INSERT_INTO @ [TSym ''('', TString (''it'' @ [squote] @ ''s''), TSym '','',
        TString ''a'', TSym '')'', TSym '';'']) \<and>
   tokenize (ADD_COUNTER_SQL (''it'' @ [squote] @ ''s'') ''a'') = Inl StorageError"
proof -
  have h: "squote \<in> set (''it'' @ [squote] @ ''s'') \<union> set ''a''"
    by simp
  have e: "tokenize (ADD_COUNTER_SQL (''it'' @ [squote] @ ''s'') ''a'') = Inl StorageError"
    by code_simp
  from quoted_argument_changes_statement [OF h] h e show ?thesis
    by blast
qed

text \<open>
  C10, as stated, fails: the name \<open>quine_name\<close> contains single quotes, and registering it
  in a new store raises no error and stores exactly this name.
\<close>

theorem quine_registers_as_given:
  "squote \<in> set quine_name \<and>
   new_counter empty_db ''r'' quine_name =
     (None, \<lparr>schema = full_schema,
              counters = [\<lparr>counter_id = 1, path = ''r'', name = quine_name\<rparr>],
              counter_counts = []\<rparr>)"
proof -
  have "squote \<in> set quine_name"
    by (simp add: quine_name_def)
  moreover have "new_counter empty_db ''r'' quine_name =
     (None, \<lparr>schema = full_schema,
              counters = [\<lparr>counter_id = 1, path = ''r'', name = quine_name\<rparr>],
              counter_counts = []\<rparr>)"
    by code_simp
  ultimately show ?thesis
    by blast
qed

lemma CHR0_ADD_COUNTER_SQL:
  "CHR 0x00 \<in> set (ADD_COUNTER_SQL p n) \<longleftrightarrow> CHR 0x00 \<in> set p \<union> set n"
  by (auto simp: ADD_COUNTER_SQL_def squote_def newline_def)

lemma rows_plain:
  "rows (length (INSERT_INTO @ [TSym ''('', TString p, TSym '','', TString n, TSym '')'', TSym '';'']))
     [TSym ''('', TString p, TSym '','', TString n, TSym '')'', TSym '';''] = Inr [(p, n)]"
  by (simp add: INSERT_INTO_def row_def expect_def)

lemma parse_insert_plain:
  assumes "squote \<notin> set p \<union> set n" "CHR 0x00 \<notin> set p \<union> set n"
  shows "parse_insert (ADD_COUNTER_SQL p n) = Inr [(p, n)]"
proof -
  have "tokenize (ADD_COUNTER_SQL p n) =
     Inr (INSERT_INTO @ [TSym ''('', TString p, TSym '','', TString n, TSym '')'', TSym '';''])"
    using assms(1) by (intro tokenize_plain) simp_all
  then show ?thesis
    using assms(2) rows_plain [of p n]
    by (simp add: parse_insert_def CHR0_ADD_COUNTER_SQL)
qed


lemma add_counter_plain:
  assumes "squote \<notin> set p \<union> set n" "CHR 0x00 \<notin> set p \<union> set n"
    and "has_table (view conn) ''counters''"
  shows "add_counter conn p n = Inr (dml (insert_or_ignore [(p, n)]) conn)"
  using assms(3) by (simp add: add_counter_def parse_insert_plain [OF assms(1,2)])

lemma path_taken_full:
  "schema d = full_schema \<Longrightarrow> path_taken d p \<longleftrightarrow> p \<in> set (map path (counters d))"
  by (simp add: path_taken_def full_schema_def)

lemma new_counter_plain:
  assumes "squote \<notin> set p \<union> set n" "CHR 0x00 \<notin> set p \<union> set n"
    and "schema store = take k full_schema" and "distinct (map path (counters store))"
  shows "\<exists>d. new_counter store p n = (None, insert_or_ignore [(p, n)] d) \<and>
           schema d = full_schema \<and>
           counters d = (if has_table store ''counters'' then counters store else []) \<and>
           (schema store = full_schema \<longrightarrow> d = store)"
proof -
  let ?conn = "get_connection store"
  obtain err c1 where c: "create_schema ?conn = (err, c1)"
    by (cases "create_schema ?conn")
  have a3: "schema (view ?conn) = take k full_schema"
    using assms(3) by simp
  have a4: "distinct (map path (counters (view ?conn)))"
    using assms(4) by simp
  note pre = create_schema_prefix [OF a3 a4, unfolded c fst_conv snd_conv view_get_connection]
  from pre have e: "err = None"
    by blast
  from pre have s: "schema (view c1) = full_schema"
    by blast
  from pre have d: "counters (view c1) = (if has_table store ''counters'' then counters store else [])"
    by (cases "has_table store ''counters''") simp_all
  from pre have f: "schema store = full_schema \<longrightarrow> c1 = ?conn"
    by blast
  have "has_table (view c1) ''counters''"
    using s by (simp add: has_table_def full_schema_def)
  then have "add_counter c1 p n = Inr (dml (insert_or_ignore [(p, n)]) c1)"
    by (rule add_counter_plain [OF assms(1,2)])
  with c e have "new_counter store p n = (None, insert_or_ignore [(p, n)] (view c1))"
    by (simp add: new_counter_def)
  moreover have "schema store = full_schema \<longrightarrow> view c1 = store"
    using f by auto
  ultimately show ?thesis
    using s d by blast
qed

lemma filter_path_single:
  "distinct (map path rs) \<Longrightarrow> p \<in> set (map path rs) \<Longrightarrow> \<exists>r. filter (\<lambda>x. path x = p) rs = [r]"
proof (induction rs)
  case Nil
  then show ?case by simp
next
  case (Cons a rs)
  show ?case
  proof (cases "path a = p")
    case True
    with Cons.prems have "p \<notin> path ` set rs"
      by simp
    then have "filter (\<lambda>x. path x = p) rs = []"
      by (auto simp: filter_empty_conv)
    with True show ?thesis
      by simp
  next
    case False
    with Cons show ?thesis
      by auto
  qed
qed

lemma register_twice_plain:
  assumes "squote \<notin> set p \<union> set n1 \<union> set n2" "CHR 0x00 \<notin> set p \<union> set n1 \<union> set n2"
    and "schema store = take k full_schema" and "distinct (map path (counters store))"
  shows "\<exists>s1 r. new_counter store p n1 = (None, s1) \<and> new_counter s1 p n2 = (None, s1) \<and>
           filter (\<lambda>x. path x = p) (counters s1) = [r] \<and>
           (p \<notin> set (map path (counters store)) \<longrightarrow> name r = n1)"
proof -
  from new_counter_plain [of p n1 store k] assms obtain d where
    n1: "new_counter store p n1 = (None, insert_or_ignore [(p, n1)] d)" and
    sd: "schema d = full_schema" and
    cd: "counters d = (if has_table store ''counters'' then counters store else [])"
    by auto
  let ?s1 = "insert_or_ignore [(p, n1)] d"
  have dd: "distinct (map path (counters d))"
    using cd assms(4) by simp
  have s1: "schema ?s1 = full_schema"
    using sd by simp
  have mem: "p \<in> set (map path (counters ?s1))"
    using path_taken_full [OF sd, of p] by auto
  have ds1: "distinct (map path (counters ?s1))"
    using dd path_taken_full [OF sd, of p] by auto
  have "schema ?s1 = take 4 full_schema"
    using s1 by (simp add: full_schema_def)
  from new_counter_plain [of p n2 ?s1 4] assms(1,2) this ds1 s1
  have "new_counter ?s1 p n2 = (None, insert_or_ignore [(p, n2)] ?s1)"
    by auto
  moreover have "insert_or_ignore [(p, n2)] ?s1 = ?s1"
    using path_taken_full [OF s1, of p] mem by simp
  ultimately have n2: "new_counter ?s1 p n2 = (None, ?s1)"
    by simp
  from filter_path_single [OF ds1 mem] obtain r where
    r: "filter (\<lambda>x. path x = p) (counters ?s1) = [r]"
    by blast
  have "name r = n1" if "p \<notin> set (map path (counters store))"
  proof -
    from that cd have "p \<notin> set (map path (counters d))"
      by (simp split: if_splits)
    then have "filter (\<lambda>x. path x = p) (counters ?s1) =
        [\<lparr>counter_id = next_rowid (map counter_id (counters d)), path = p, name = n1\<rparr>]"
      using path_taken_full [OF sd, of p] by (auto simp: filter_empty_conv)
    with r show ?thesis
      by auto
  qed
  with n1 n2 r show ?thesis
    by blast
qed

text \<open>
  C5.  The claim holds for paths and names without single quotes (lemma
  \<open>register_twice_plain\<close>), and fails for others.  The path \<^verbatim>\<open>it's\<close> cannot be registered
  at all: both registrations raise a storage error and no row exists for the path.  The
  name \<^verbatim>\<open>O''Brien\<close> is registered as \<^verbatim>\<open>O'Brien\<close>, not as the name given.
\<close>

theorem register_quoted_twice:
  "new_counter empty_db (''it'' @ [squote] @ ''s'') ''first'' =
     (Some StorageError, \<lparr>schema = full_schema, counters = [], counter_counts = []\<rparr>) \<and>
   new_counter \<lparr>schema = full_schema, counters = [], counter_counts = []\<rparr>
       (''it'' @ [squote] @ ''s'') ''second'' =
     (Some StorageError, \<lparr>schema = full_schema, counters = [], counter_counts = []\<rparr>) \<and>
   new_counter empty_db ''/sys/a'' (''O'' @ [squote, squote] @ ''Brien'') =
     (None, \<lparr>schema = full_schema,
              counters = [\<lparr>counter_id = 1, path = ''/sys/a'',
                           name = ''O'' @ [squote] @ ''Brien''\<rparr>],
              counter_counts = []\<rparr>)"
  by code_simp

end
